theory Spec2Isabelle
  imports Main "HOL-Library.AList" "HOL-Library.Multiset"
begin

section \<open>JavaScript arrays and objects\<close>

text \<open>
  The pages are React components written in TypeScript. Their state is made of arrays
  and of plain objects used as dictionaries; the handlers compute a new state from the
  previous one. An array is a list. Indices are \<open>int\<close>, since \<open>findIndex\<close> and
  \<open>indexOf\<close> answer \<open>-1\<close> and \<open>splice\<close> accepts negative positions.

  Two outcomes of an updater do not fit the declared type of the state: the updater
  throws a \<open>TypeError\<close> (spreading \<open>undefined\<close> or a function), or it returns an array
  that holds \<open>undefined\<close> where the type announces an item. Both are values of
  \<open>stuck\<close>, returned on the left of a sum.
\<close>

datatype stuck = TypeError | UndefinedItem

fun first_index :: "('a \<Rightarrow> bool) \<Rightarrow> 'a list \<Rightarrow> nat option" where
  "first_index p [] = None"
| "first_index p (x # xs) = (if p x then Some 0 else map_option Suc (first_index p xs))"

definition findIndex :: "('a \<Rightarrow> bool) \<Rightarrow> 'a list \<Rightarrow> int" where
  \<comment> \<open>\<open>Array.prototype.findIndex\<close>: the first index whose element satisfies \<open>p\<close>, else \<open>-1\<close>.\<close>
  "findIndex p xs = (case first_index p xs of None \<Rightarrow> - 1 | Some i \<Rightarrow> int i)"

definition indexOf :: "'a list \<Rightarrow> 'a \<Rightarrow> int" where
  \<comment> \<open>\<open>Array.prototype.indexOf\<close> on strings: strict equality is equality.\<close>
  "indexOf xs v = findIndex (\<lambda>x. x = v) xs"

definition splice :: "'a list \<Rightarrow> int \<Rightarrow> int \<Rightarrow> 'a list \<Rightarrow> 'a list \<times> 'a list" where
  \<comment> \<open>\<open>Array.prototype.splice(start, deleteCount, ...ins)\<close>: a negative start counts from
      the end, both numbers are clamped to the array. The result is the pair of the
      removed elements (what the call returns) and the array as it is left.\<close>
  "splice xs start deleteCount ins =
     (let len = int (length xs);
          actualStart = (if start < 0 then max (len + start) 0 else min start len);
          actualDeleteCount = min (max deleteCount 0) (len - actualStart)
      in (take (nat actualDeleteCount) (drop (nat actualStart) xs),
          take (nat actualStart) xs @ ins @ drop (nat (actualStart + actualDeleteCount)) xs))"

definition arrayMove :: "'a list \<Rightarrow> int \<Rightarrow> int \<Rightarrow> stuck + 'a list" where
  \<comment> \<open>\<open>arrayMove\<close> of the drag-and-drop library (package \<open>@dnd-kit/sortable\<close>), which the
      pages import:
      \<^verbatim>\<open>const newArray = array.slice();
        newArray.splice(to < 0 ? newArray.length + to : to, 0, newArray.splice(from, 1)[0]);
        return newArray;\<close>
      The position is computed before the inner \<open>splice\<close> shortens the copy. When the
      inner \<open>splice\<close> removes nothing, \<open>undefined\<close> is inserted.\<close>
  "arrayMove array from to =
     (let newArray = array;
          pos = (if to < 0 then int (length newArray) + to else to);
          (removed, rest) = splice newArray from 1 []
      in case removed of
           [] \<Rightarrow> Inl UndefinedItem
         | moved # _ \<Rightarrow> Inr (snd (splice rest pos 0 [moved])))"

definition truthy :: "string \<Rightarrow> bool" where
  \<comment> \<open>A string in a condition: only the empty string counts as false.\<close>
  "truthy s = (s \<noteq> [])"

definition Object_prototype_keys :: "string list" where
  \<comment> \<open>The property names every plain object inherits from \<open>Object.prototype\<close>.\<close>
  "Object_prototype_keys =
     [''constructor'', ''__defineGetter__'', ''__defineSetter__'', ''hasOwnProperty'',
      ''__lookupGetter__'', ''__lookupSetter__'', ''isPrototypeOf'', ''propertyIsEnumerable'',
      ''toString'', ''valueOf'', ''__proto__'', ''toLocaleString'']"

text \<open>
  A plain object used as a dictionary is the association list of its own properties, in
  the order \<open>Object.keys\<close> lists them (the order of creation: the pages have no
  property named by a number, which would come first); \<open>map_of\<close> reads a property of its own, and
  \<open>AList.update\<close> is what \<open>{...obj, [k]: v}\<close> builds: the value is replaced in place
  when \<open>k\<close> is there. The operator \<open>in\<close> also sees the inherited names. Reading an
  inherited name gives a function (or the prototype), reading an unknown name gives
  \<open>undefined\<close>; spreading either, or handing it to \<open>Array.from\<close>, throws, so a
  handler that copies the array found under a name that is not an own property is stuck
  with \<open>TypeError\<close>.
\<close>

definition js_in :: "string \<Rightarrow> (string \<times> 'v) list \<Rightarrow> bool" where
  "js_in k obj = (k \<in> set (map fst obj) \<or> k \<in> set Object_prototype_keys)"

text \<open>
  The event the library hands to \<open>onDragStart\<close> and \<open>onDragEnd\<close>. Only the fields the
  handlers read are kept: the identifier of the dragged element and the identifier of
  the element under it (\<open>over\<close> is \<open>null\<close> when there is none); the free-positioning
  page also reads the distance travelled. Identifiers are the strings the pages
  register, so \<open>toString\<close> leaves them as they are.
\<close>

record DragEndEvent =
  active :: string
  over :: "string option"

record 'n Coordinates =
  coord_x :: 'n
  coord_y :: 'n

record 'n DragMoveEvent = DragEndEvent +
  delta :: "'n Coordinates"

section \<open>Sortable list page\<close>

record Item =
  item_id :: string
  content :: string
  completed :: bool

definition initialItems :: "Item list" where
  "initialItems =
     [\<lparr>item_id = ''1'', content = ''Learn React basics'', completed = True\<rparr>,
      \<lparr>item_id = ''2'', content = ''Build a to-do app'', completed = False\<rparr>,
      \<lparr>item_id = ''3'', content = ''Learn about React hooks'', completed = False\<rparr>,
      \<lparr>item_id = ''4'', content = ''Explore dnd-kit library'', completed = True\<rparr>,
      \<lparr>item_id = ''5'', content = ''Create a sortable list'', completed = False\<rparr>,
      \<lparr>item_id = ''6'', content = ''Add keyboard accessibility'', completed = False\<rparr>]"

definition SortableListPage_handleDragEnd :: "DragEndEvent \<Rightarrow> Item list \<Rightarrow> stuck + Item list" where
  "SortableListPage_handleDragEnd event items =
     (case over event of
        None \<Rightarrow> Inr items
      | Some over_id \<Rightarrow>
          if active event \<noteq> over_id then
            (let oldIndex = findIndex (\<lambda>item. item_id item = active event) items;
                 newIndex = findIndex (\<lambda>item. item_id item = over_id) items
             in arrayMove items oldIndex newIndex)
          else Inr items)"

definition SortableListPage_resetList :: "Item list \<Rightarrow> Item list" where
  "SortableListPage_resetList items = initialItems"

inductive SortableListPage_reachable :: "Item list \<Rightarrow> bool" where
  sortable_load: "SortableListPage_reachable initialItems"
| sortable_drag:
    "SortableListPage_reachable items \<Longrightarrow> SortableListPage_handleDragEnd event items = Inr items'
     \<Longrightarrow> SortableListPage_reachable items'"
| sortable_reset:
    "SortableListPage_reachable items \<Longrightarrow> SortableListPage_reachable (SortableListPage_resetList items)"

definition precedes :: "string \<Rightarrow> string \<Rightarrow> Item list \<Rightarrow> bool" where
  \<comment> \<open>The item with identifier \<open>a\<close> is in the list, above the item with identifier \<open>b\<close>.\<close>
  "precedes a b items =
     (0 \<le> findIndex (\<lambda>item. item_id item = a) items \<and>
      findIndex (\<lambda>item. item_id item = a) items < findIndex (\<lambda>item. item_id item = b) items)"

section \<open>Customised drag overlay page\<close>

record FileItem =
  file_id :: string
  file_name :: string
  file_type :: string
  file_size :: string

definition fileItems :: "FileItem list" where
  "fileItems =
     [\<lparr>file_id = ''file-1'', file_name = ''Document.pdf'', file_type = ''pdf'', file_size = ''2.4 MB''\<rparr>,
      \<lparr>file_id = ''file-2'', file_name = ''Photo.jpg'', file_type = ''image'', file_size = ''3.8 MB''\<rparr>,
      \<lparr>file_id = ''file-3'', file_name = ''Presentation.pptx'', file_type = ''presentation'',
         file_size = ''5.2 MB''\<rparr>,
      \<lparr>file_id = ''file-4'', file_name = ''Spreadsheet.xlsx'', file_type = ''spreadsheet'',
         file_size = ''1.7 MB''\<rparr>,
      \<lparr>file_id = ''file-5'', file_name = ''Archive.zip'', file_type = ''archive'', file_size = ''8.1 MB''\<rparr>]"

text \<open>The two \<open>useState\<close> cells of the page.\<close>

record CustomOverlayPage =
  overlay_items :: "FileItem list"
  overlay_activeItem :: "FileItem option"

definition CustomOverlayPage_handleDragStart :: "DragEndEvent \<Rightarrow> CustomOverlayPage \<Rightarrow> CustomOverlayPage" where
  "CustomOverlayPage_handleDragStart event st =
     (case List.find (\<lambda>item. file_id item = active event) (overlay_items st) of
        Some activeItem \<Rightarrow> st\<lparr>overlay_activeItem := Some activeItem\<rparr>
      | None \<Rightarrow> st)"

definition CustomOverlayPage_handleDragEnd :: "DragEndEvent \<Rightarrow> CustomOverlayPage \<Rightarrow> stuck + CustomOverlayPage" where
  "CustomOverlayPage_handleDragEnd event st =
     (case (case over event of
              None \<Rightarrow> Inr (overlay_items st)
            | Some over_id \<Rightarrow>
                if active event \<noteq> over_id then
                  (let oldIndex = findIndex (\<lambda>item. file_id item = active event) (overlay_items st);
                       newIndex = findIndex (\<lambda>item. file_id item = over_id) (overlay_items st)
                   in arrayMove (overlay_items st) oldIndex newIndex)
                else Inr (overlay_items st)) of
        Inl e \<Rightarrow> Inl e
      | Inr items' \<Rightarrow> Inr (st\<lparr>overlay_items := items', overlay_activeItem := None\<rparr>))"

definition CustomOverlayPage_resetItems :: "CustomOverlayPage \<Rightarrow> CustomOverlayPage" where
  "CustomOverlayPage_resetItems st = st\<lparr>overlay_items := fileItems\<rparr>"

inductive CustomOverlayPage_reachable :: "CustomOverlayPage \<Rightarrow> bool" where
  overlay_load:
    "CustomOverlayPage_reachable \<lparr>overlay_items = fileItems, overlay_activeItem = None\<rparr>"
| overlay_start:
    "CustomOverlayPage_reachable st \<Longrightarrow> CustomOverlayPage_reachable (CustomOverlayPage_handleDragStart event st)"
| overlay_drag:
    "CustomOverlayPage_reachable st \<Longrightarrow> CustomOverlayPage_handleDragEnd event st = Inr st'
     \<Longrightarrow> CustomOverlayPage_reachable st'"
| overlay_reset:
    "CustomOverlayPage_reachable st \<Longrightarrow> CustomOverlayPage_reachable (CustomOverlayPage_resetItems st)"

section \<open>Kanban board page\<close>

datatype Priority = High | Medium | Low

record Task =
  task_id :: string
  task_content :: string
  priority :: Priority

definition initialTasks :: "(string \<times> Task list) list" where
  "initialTasks =
     [(''to-do'',
         [\<lparr>task_id = ''task-1'', task_content = ''Research competitors'', priority = High\<rparr>,
          \<lparr>task_id = ''task-2'', task_content = ''Update documentation'', priority = Medium\<rparr>,
          \<lparr>task_id = ''task-3'', task_content = ''Review project scope'', priority = Low\<rparr>]),
      (''in-progress'',
         [\<lparr>task_id = ''task-4'', task_content = ''Design landing page'', priority = High\<rparr>,
          \<lparr>task_id = ''task-5'', task_content = ''Implement drag and drop'', priority = Medium\<rparr>]),
      (''completed'',
         [\<lparr>task_id = ''task-6'', task_content = ''Team meeting'', priority = High\<rparr>,
          \<lparr>task_id = ''task-7'', task_content = ''Set up project repository'', priority = Medium\<rparr>])]"

definition findColumnOfTask :: "(string \<times> Task list) list \<Rightarrow> string \<Rightarrow> string option" where
  "findColumnOfTask tasks taskId =
     List.find (\<lambda>columnId. case map_of tasks columnId of
                              None \<Rightarrow> False
                            | Some column \<Rightarrow> list_ex (\<lambda>task. task_id task = taskId) column)
               (map fst tasks)"

text \<open>The two \<open>useState\<close> cells of the board.\<close>

record KanbanBoardPage =
  kanban_tasks :: "(string \<times> Task list) list"
  kanban_activeTask :: "Task option"

definition KanbanBoardPage_handleDragStart :: "DragEndEvent \<Rightarrow> KanbanBoardPage \<Rightarrow> KanbanBoardPage" where
  "KanbanBoardPage_handleDragStart event st =
     (let taskId = active event in
      case findColumnOfTask (kanban_tasks st) taskId of
        None \<Rightarrow> st
      | Some columnId \<Rightarrow>
          if truthy columnId then
            (case map_of (kanban_tasks st) columnId of
               None \<Rightarrow> st
             | Some column \<Rightarrow>
                 (case List.find (\<lambda>task. task_id task = taskId) column of
                    Some task \<Rightarrow> st\<lparr>kanban_activeTask := Some task\<rparr>
                  | None \<Rightarrow> st))
          else st)"

text \<open>
  The function handed to \<open>setTasks\<close>. It closes over \<open>activeId\<close>, \<open>overId\<close> and the two
  columns the handler has looked up, and receives the previous board.
\<close>

definition KanbanBoardPage_setTasks_updater ::
  "string \<Rightarrow> string \<Rightarrow> string \<Rightarrow> string option \<Rightarrow> (string \<times> Task list) list
     \<Rightarrow> stuck + (string \<times> Task list) list" where
  "KanbanBoardPage_setTasks_updater activeId overId activeColumn overColumn prevTasks =
     (if (case overColumn of None \<Rightarrow> False | Some c \<Rightarrow> truthy c) \<and> Some activeColumn \<noteq> overColumn then
        (case map_of prevTasks activeColumn of
           None \<Rightarrow> Inl TypeError
         | Some activeItems \<Rightarrow>
        (case map_of prevTasks (the overColumn) of
           None \<Rightarrow> Inl TypeError
         | Some overItems \<Rightarrow>
             (let activeIndex = findIndex (\<lambda>task. task_id task = activeId) activeItems;
                  overIndex = findIndex (\<lambda>task. task_id task = overId) overItems;
                  task = (if 0 \<le> activeIndex then Some (activeItems ! nat activeIndex) else None);
                  activeItems' = snd (splice activeItems activeIndex 1 [])
              in if js_in overId prevTasks then
                   (case map_of prevTasks overId of
                      None \<Rightarrow> Inl TypeError
                    | Some column \<Rightarrow>
                        (case task of
                           None \<Rightarrow> Inl UndefinedItem
                         | Some t \<Rightarrow>
                             Inr (AList.update overId (column @ [t])
                                    (AList.update activeColumn activeItems' prevTasks))))
                 else
                   (case task of
                      None \<Rightarrow> Inl UndefinedItem
                    | Some t \<Rightarrow>
                        (let overItems' =
                               snd (splice overItems
                                      (if 0 \<le> overIndex then overIndex else int (length overItems)) 0 [t])
                         in Inr (AList.update (the overColumn) overItems'
                                   (AList.update activeColumn activeItems' prevTasks)))))))
      else if Some activeColumn = overColumn then
        (case map_of prevTasks activeColumn of
           None \<Rightarrow> Inl TypeError
         | Some items \<Rightarrow>
             (let activeIndex = findIndex (\<lambda>task. task_id task = activeId) items;
                  overIndex = findIndex (\<lambda>task. task_id task = overId) items
              in case arrayMove items activeIndex overIndex of
                   Inl e \<Rightarrow> Inl e
                 | Inr moved \<Rightarrow> Inr (AList.update activeColumn moved prevTasks)))
      else Inr prevTasks)"

definition KanbanBoardPage_handleDragEnd :: "DragEndEvent \<Rightarrow> KanbanBoardPage \<Rightarrow> stuck + KanbanBoardPage" where
  "KanbanBoardPage_handleDragEnd event st =
     (case over event of
        None \<Rightarrow> Inr st
      | Some overId \<Rightarrow>
          (let activeId = active event in
           if activeId = overId then Inr st
           else
             (let activeColumn = findColumnOfTask (kanban_tasks st) activeId;
                  overColumn = findColumnOfTask (kanban_tasks st) overId
              in case activeColumn of
                   None \<Rightarrow> Inr st
                 | Some activeColumn \<Rightarrow>
                     if \<not> truthy activeColumn then Inr st
                     else
                       (case KanbanBoardPage_setTasks_updater activeId overId activeColumn overColumn
                               (kanban_tasks st) of
                          Inl e \<Rightarrow> Inl e
                        | Inr tasks' \<Rightarrow> Inr \<lparr>kanban_tasks = tasks', kanban_activeTask = None\<rparr>))))"

definition KanbanBoardPage_resetBoard :: "KanbanBoardPage \<Rightarrow> KanbanBoardPage" where
  "KanbanBoardPage_resetBoard st = st\<lparr>kanban_tasks := initialTasks\<rparr>"

inductive KanbanBoardPage_reachable :: "KanbanBoardPage \<Rightarrow> bool" where
  kanban_load:
    "KanbanBoardPage_reachable \<lparr>kanban_tasks = initialTasks, kanban_activeTask = None\<rparr>"
| kanban_start:
    "KanbanBoardPage_reachable st \<Longrightarrow> KanbanBoardPage_reachable (KanbanBoardPage_handleDragStart event st)"
| kanban_drag:
    "KanbanBoardPage_reachable st \<Longrightarrow> KanbanBoardPage_handleDragEnd event st = Inr st'
     \<Longrightarrow> KanbanBoardPage_reachable st'"
| kanban_reset:
    "KanbanBoardPage_reachable st \<Longrightarrow> KanbanBoardPage_reachable (KanbanBoardPage_resetBoard st)"

section \<open>Multiple containers page\<close>

definition initialContainers :: "(string \<times> string list) list" where
  \<comment> \<open>The argument of \<open>useState\<close>.\<close>
  "initialContainers =
     [(''Container A'', [''item-1'', ''item-2'']),
      (''Container B'', [''item-3'']),
      (''Container C'', [''item-4'', ''item-5'']),
      (''root'', [])]"

definition findContainer :: "(string \<times> string list) list \<Rightarrow> string \<Rightarrow> string option" where
  "findContainer items itemId =
     (if js_in itemId items then Some itemId
      else List.find (\<lambda>key. case map_of items key of
                               None \<Rightarrow> False
                             | Some held \<Rightarrow> itemId \<in> set held)
                     (map fst items))"

definition MultipleContainersPage_setItems_updater ::
  "string \<Rightarrow> string \<Rightarrow> string \<Rightarrow> (string \<times> string list) list \<Rightarrow> stuck + (string \<times> string list) list" where
  "MultipleContainersPage_setItems_updater activeId activeContainer overContainer prev =
     (case map_of prev activeContainer of
        None \<Rightarrow> Inl TypeError
      | Some activeItems \<Rightarrow>
     (case map_of prev overContainer of
        None \<Rightarrow> Inl TypeError
      | Some overItems \<Rightarrow>
          (let activeIndex = indexOf activeItems activeId;
               activeItems' = snd (splice activeItems activeIndex 1 []);
               overItems' = overItems @ [activeId]
           in Inr (AList.update overContainer overItems'
                     (AList.update activeContainer activeItems' prev)))))"

definition overContainer_of :: "(string \<times> string list) list \<Rightarrow> string \<Rightarrow> string" where
  \<comment> \<open>The expression \<open>findContainer(overId) || overId\<close> of the handler.\<close>
  "overContainer_of items overId =
     (case findContainer items overId of
        None \<Rightarrow> overId
      | Some c \<Rightarrow> if truthy c then c else overId)"

definition MultipleContainersPage_handleDragEnd ::
  "DragEndEvent \<Rightarrow> (string \<times> string list) list \<Rightarrow> stuck + (string \<times> string list) list" where
  "MultipleContainersPage_handleDragEnd event items =
     (case over event of
        None \<Rightarrow> Inr items
      | Some overId \<Rightarrow>
          (let activeId = active event;
               activeContainer = findContainer items activeId;
               overContainer = overContainer_of items overId
           in case activeContainer of
                None \<Rightarrow> Inr items
              | Some activeContainer \<Rightarrow>
                  if \<not> truthy activeContainer \<or> \<not> truthy overContainer \<or> activeContainer = overContainer
                  then Inr items
                  else MultipleContainersPage_setItems_updater activeId activeContainer overContainer items))"

text \<open>
  What the page registers with the library. A \<open>DroppableContainer\<close> is rendered for each
  of the three names of \<open>containers\<close>, and a \<open>DraggableItem\<close> for each identifier held by
  one of these three; \<open>root\<close> is not rendered. The library reports as \<open>active\<close> an element
  registered with \<open>useDraggable\<close> and as \<open>over\<close> an element registered with
  \<open>useDroppable\<close>, or nothing: these are the events the handler can receive.
\<close>

definition containers :: "string list" where
  "containers = [''Container A'', ''Container B'', ''Container C'']"

definition draggable_ids :: "(string \<times> string list) list \<Rightarrow> string list" where
  "draggable_ids items =
     concat (map (\<lambda>id. case map_of items id of None \<Rightarrow> [] | Some held \<Rightarrow> held) containers)"

definition deliverable :: "(string \<times> string list) list \<Rightarrow> DragEndEvent \<Rightarrow> bool" where
  "deliverable items event =
     (active event \<in> set (draggable_ids items) \<and>
      (case over event of None \<Rightarrow> True | Some overId \<Rightarrow> overId \<in> set containers))"

inductive MultipleContainersPage_reachable :: "(string \<times> string list) list \<Rightarrow> bool" where
  containers_load: "MultipleContainersPage_reachable initialContainers"
| containers_drag:
    "MultipleContainersPage_reachable items \<Longrightarrow> deliverable items event
     \<Longrightarrow> MultipleContainersPage_handleDragEnd event items = Inr items'
     \<Longrightarrow> MultipleContainersPage_reachable items'"

section \<open>The data model of the containers\<close>

definition held :: "(string \<times> 'a list) list \<Rightarrow> 'a list" where
  \<comment> \<open>What all the containers (or columns) of an object hold, container after container.\<close>
  "held obj = concat (map snd obj)"

definition holds :: "(string \<times> 'a list) list \<Rightarrow> ('a \<Rightarrow> string) \<Rightarrow> string \<Rightarrow> string \<Rightarrow> bool" where
  \<comment> \<open>Container \<open>c\<close> of the object holds an element whose identifier is \<open>i\<close>.\<close>
  "holds obj ident c i = (case map_of obj c of None \<Rightarrow> False | Some there \<Rightarrow> i \<in> set (map ident there))"

definition at_most_one_container :: "(string \<times> 'a list) list \<Rightarrow> ('a \<Rightarrow> string) \<Rightarrow> bool" where
  \<comment> \<open>The invariant of the data model, as it is worded: no identifier is held by two
      different containers.\<close>
  "at_most_one_container obj ident =
     (\<forall>c \<in> set (map fst obj). \<forall>d \<in> set (map fst obj). \<forall>i \<in> set (map ident (held obj)).
        holds obj ident c i \<and> holds obj ident d i \<longrightarrow> c = d)"

definition separate_identifiers :: "(string \<times> 'a list) list \<Rightarrow> ('a \<Rightarrow> string) \<Rightarrow> bool" where
  \<comment> \<open>A stronger condition, which the initial states meet: no identifier occurs twice in
      the containers taken together, and no identifier of an element is a name that
      \<open>in\<close> finds in the object.\<close>
  "separate_identifiers obj ident =
     (distinct (map ident (held obj)) \<and> (\<forall>i \<in> set (map ident (held obj)). \<not> js_in i obj))"

section \<open>Free positioning page\<close>

text \<open>
  Positions are JavaScript numbers. The handler only adds two of them, so the number
  type is left open: any type with an addition. The initial list is written with
  numerals.
\<close>

record 'n PositionableItem =
  pitem_id :: string
  label :: string
  position :: "'n Coordinates"

definition FreePositioningPage_initialItems :: "'n::numeral PositionableItem list" where
  "FreePositioningPage_initialItems =
     [\<lparr>pitem_id = ''item-1'', label = ''Item 1'', position = \<lparr>coord_x = 50, coord_y = 50\<rparr>\<rparr>,
      \<lparr>pitem_id = ''item-2'', label = ''Item 2'', position = \<lparr>coord_x = 200, coord_y = 100\<rparr>\<rparr>,
      \<lparr>pitem_id = ''item-3'', label = ''Item 3'', position = \<lparr>coord_x = 350, coord_y = 150\<rparr>\<rparr>]"

text \<open>
  The page, with what it touches outside React: the browser's local storage, a
  dictionary from keys to strings, and the console, the list of the messages logged
  with \<open>console.error\<close>. React compares the array handed to \<open>setItems\<close> with the array
  of the state by identity, and the effect that saves depends on that array; the only
  array that can be handed while it is the state is the constant \<open>initialItems\<close>, so the
  state records whether its array is that very constant.
\<close>

record 'n FreePositioningPage =
  fp_items :: "'n PositionableItem list"
  items_is_initialItems :: bool
  localStorage :: "string \<rightharpoonup> string"
  console :: "string list"

text \<open>
  \<open>JSON.parse\<close> and \<open>JSON.stringify\<close> belong to the language, not to the repository:
  they are parameters. \<open>parse s = None\<close> stands for \<open>JSON.parse(s)\<close> throwing; the value
  decoded is given the type the page declares for its state.
\<close>

type_synonym 'n json_parse = "string \<Rightarrow> 'n PositionableItem list option"
type_synonym 'n json_stringify = "'n PositionableItem list \<Rightarrow> string"

definition storage_key :: string where
  "storage_key = ''free-positioning-items''"

definition useEffect_load ::
  "'n json_parse \<Rightarrow> 'n FreePositioningPage \<Rightarrow> 'n PositionableItem list option \<times> 'n FreePositioningPage" where
  \<comment> \<open>The effect that runs once on mount. The first component is the argument of the
      call of \<open>setItems\<close>, when there is one: React applies it after the effects of
      the commit have run.\<close>
  "useEffect_load parse st =
     (case localStorage st storage_key of
        None \<Rightarrow> (None, st)
      | Some savedItems \<Rightarrow>
          if truthy savedItems then
            (case parse savedItems of
               Some decoded \<Rightarrow> (Some decoded, st)
             | None \<Rightarrow> (None, st\<lparr>console := console st @ [''Failed to parse saved items:'']\<rparr>))
          else (None, st))"

definition useEffect_save :: "'n json_stringify \<Rightarrow> 'n FreePositioningPage \<Rightarrow> 'n FreePositioningPage" where
  \<comment> \<open>The effect that depends on \<open>items\<close>: it runs on mount and after each render in which
      \<open>items\<close> is another array than in the render before.\<close>
  "useEffect_save stringify st =
     st\<lparr>localStorage := (localStorage st)(storage_key \<mapsto> stringify (fp_items st))\<rparr>"

definition setItems :: "'n json_stringify \<Rightarrow> 'n PositionableItem list \<Rightarrow> 'n FreePositioningPage \<Rightarrow> 'n FreePositioningPage" where
  \<comment> \<open>A call of \<open>setItems\<close> with an array just created (by \<open>JSON.parse\<close> or by \<open>map\<close>), which
      is therefore not the array of the state: the render it causes and the effect of
      that render.\<close>
  "setItems stringify items' st =
     useEffect_save stringify (st\<lparr>fp_items := items', items_is_initialItems := False\<rparr>)"

definition FreePositioningPage_mount ::
  "'n json_parse \<Rightarrow> 'n json_stringify \<Rightarrow> (string \<rightharpoonup> string) \<Rightarrow> ('n::numeral) FreePositioningPage" where
  \<comment> \<open>The first render, with the state of \<open>useState(initialItems)\<close>; its two effects run in
      the order they are declared; then the state set by the first effect is rendered.\<close>
  "FreePositioningPage_mount parse stringify storage =
     (let st0 = \<lparr>fp_items = FreePositioningPage_initialItems, items_is_initialItems = True,
                 localStorage = storage, console = []\<rparr>;
          (pending, st1) = useEffect_load parse st0;
          st2 = useEffect_save stringify st1
      in case pending of
           None \<Rightarrow> st2
         | Some decoded \<Rightarrow> setItems stringify decoded st2)"

definition FreePositioningPage_setItems_updater ::
  "('n::plus, 'z) DragMoveEvent_scheme \<Rightarrow> 'n PositionableItem list \<Rightarrow> 'n PositionableItem list" where
  "FreePositioningPage_setItems_updater event prevItems =
     map (\<lambda>item. if pitem_id item = active event then
                    item\<lparr>position := \<lparr>coord_x = coord_x (position item) + coord_x (delta event),
                                      coord_y = coord_y (position item) + coord_y (delta event)\<rparr>\<rparr>
                  else item)
         prevItems"

definition FreePositioningPage_handleDragEnd ::
  "'n json_stringify \<Rightarrow> ('n::plus, 'z) DragMoveEvent_scheme \<Rightarrow> 'n FreePositioningPage \<Rightarrow> 'n FreePositioningPage" where
  "FreePositioningPage_handleDragEnd stringify event st =
     setItems stringify (FreePositioningPage_setItems_updater event (fp_items st)) st"

definition FreePositioningPage_resetPositions ::
  "'n json_stringify \<Rightarrow> ('n::numeral) FreePositioningPage \<Rightarrow> 'n FreePositioningPage" where
  \<comment> \<open>\<open>setItems(initialItems)\<close>. When the array of the state is \<open>initialItems\<close> already, React
      finds the same array, does not render, and the effect that saves does not run. (A
      record that says so while it holds another list stands for no state of the page;
      the second test makes the function put the initial list back there too.)\<close>
  "FreePositioningPage_resetPositions stringify st =
     (if items_is_initialItems st \<and> fp_items st = FreePositioningPage_initialItems then st
      else useEffect_save stringify
             (st\<lparr>fp_items := FreePositioningPage_initialItems, items_is_initialItems := True\<rparr>))"

inductive FreePositioningPage_reachable ::
  "'n json_parse \<Rightarrow> 'n json_stringify \<Rightarrow> ('n::numeral) FreePositioningPage \<Rightarrow> bool"
  for parse :: "'n json_parse" and stringify :: "'n json_stringify" where
  free_positioning_load:
    "FreePositioningPage_reachable parse stringify (FreePositioningPage_mount parse stringify storage)"
| free_positioning_drag:
    "FreePositioningPage_reachable parse stringify st
     \<Longrightarrow> FreePositioningPage_reachable parse stringify
           (FreePositioningPage_handleDragEnd stringify (event :: 'n DragMoveEvent) st)"
| free_positioning_reset:
    "FreePositioningPage_reachable parse stringify st
     \<Longrightarrow> FreePositioningPage_reachable parse stringify (FreePositioningPage_resetPositions stringify st)"

section \<open>Facts about the array primitives\<close>

lemma first_index_Some: "first_index p xs = Some i \<Longrightarrow> i < length xs \<and> p (xs ! i) \<and> (\<forall>j<i. \<not> p (xs ! j))"
proof (induction xs arbitrary: i)
  case Nil then show ?case by simp
next
  case (Cons x xs)
  show ?case
  proof (cases "p x")
    case True with Cons.prems show ?thesis by simp
  next
    case False
    with Cons.prems obtain k where k: "first_index p xs = Some k" "i = Suc k" by auto
    from Cons.IH[OF k(1)] False k(2) show ?thesis by (auto simp: less_Suc_eq_0_disj)
  qed
qed

lemma first_index_None: "first_index p xs = None \<longleftrightarrow> (\<forall>x\<in>set xs. \<not> p x)"
  by (induction xs) auto

lemma findIndex_range: "- 1 \<le> findIndex p xs \<and> findIndex p xs < int (length xs)"
  by (auto simp: findIndex_def split: option.splits dest: first_index_Some)

lemma splice_shape:
  obtains a c where "a \<le> length xs" "a + c \<le> length xs" "int c \<le> max d 0"
    "splice xs s d ins = (take c (drop a xs), take a xs @ ins @ drop (a + c) xs)"
    "(0 \<le> s \<and> s \<le> int (length xs) \<longrightarrow> a = nat s)"
    "(0 < d \<and> a < length xs \<longrightarrow> 0 < c)"
proof -
  define a where "a = nat (if s < 0 then max (int (length xs) + s) 0 else min s (int (length xs)))"
  define c where "c = nat (min (max d 0) (int (length xs) - int a))"
  have a_le: "a \<le> length xs" unfolding a_def by (auto simp: min_def max_def)
  have ia: "int a = (if s < 0 then max (int (length xs) + s) 0 else min s (int (length xs)))"
    unfolding a_def by (auto simp: min_def max_def)
  have c_le: "a + c \<le> length xs" using a_le unfolding c_def by linarith
  have c_d: "int c \<le> max d 0" unfolding c_def by linarith
  have sum: "nat (int a + int c) = a + c" by (simp add: nat_add_distrib)
  have ic: "int c = min (max d 0) (int (length xs) - int a)" using a_le unfolding c_def by simp
  have eq: "splice xs s d ins = (take c (drop a xs), take a xs @ ins @ drop (a + c) xs)"
    unfolding splice_def Let_def ia[symmetric] ic[symmetric] sum by simp
  have p1: "0 \<le> s \<and> s \<le> int (length xs) \<longrightarrow> a = nat s" unfolding a_def by simp
  have p2: "0 < d \<and> a < length xs \<longrightarrow> 0 < c" unfolding c_def by linarith
  show thesis using that[OF a_le c_le c_d eq p1 p2] .
qed


lemma splice_mset:
  "mset (fst (splice xs s d ins)) + mset (snd (splice xs s d ins)) = mset xs + mset ins"
proof -
  obtain a c where eq: "splice xs s d ins = (take c (drop a xs), take a xs @ ins @ drop (a + c) xs)"
    by (rule splice_shape)
  have "mset (take c (drop a xs)) + mset (drop c (drop a xs)) = mset (drop a xs)"
    by (metis append_take_drop_id mset_append)
  moreover have "mset (take a xs) + mset (drop a xs) = mset xs"
    by (metis append_take_drop_id mset_append)
  ultimately have "mset xs = mset (take a xs) + mset (take c (drop a xs)) + mset (drop (a + c) xs)"
    by (metis add.assoc add.commute drop_drop)
  then show ?thesis by (simp add: eq add.commute)
qed

lemma splice_one_removed: "length (fst (splice xs s 1 ins)) \<le> 1"
proof -
  obtain a c where "int c \<le> max 1 0" "splice xs s 1 ins = (take c (drop a xs), take a xs @ ins @ drop (a + c) xs)"
    by (rule splice_shape)
  then show ?thesis by simp
qed

lemma splice_none_removed: "fst (splice xs s 0 ins) = []"
proof -
  obtain a c where "int c \<le> max 0 0" "splice xs s 0 ins = (take c (drop a xs), take a xs @ ins @ drop (a + c) xs)"
    by (rule splice_shape)
  then show ?thesis by simp
qed

lemma arrayMove_Inr:
  assumes "arrayMove xs f t = Inr ys"
  obtains moved rest where "splice xs f 1 [] = ([moved], rest)"
    "ys = snd (splice rest (if t < 0 then int (length xs) + t else t) 0 [moved])"
proof -
  obtain removed rest where sp: "splice xs f 1 [] = (removed, rest)" by (cases "splice xs f 1 []")
  with assms obtain moved tl where r: "removed = moved # tl" 
    by (auto simp: arrayMove_def Let_def split: list.splits)
  have "length removed \<le> 1" using splice_one_removed[of xs f "[]"] sp by simp
  with r have tl: "tl = []" by simp
  from assms sp r have ys: "ys = snd (splice rest (if t < 0 then int (length xs) + t else t) 0 [moved])"
    by (simp add: arrayMove_def Let_def)
  show thesis using that sp r tl ys by simp
qed

lemma arrayMove_mset: 
  assumes "arrayMove xs f t = Inr ys" shows "mset ys = mset xs"
proof -
  from assms obtain moved rest where sp: "splice xs f 1 [] = ([moved], rest)"
    and ys: "ys = snd (splice rest (if t < 0 then int (length xs) + t else t) 0 [moved])"
    by (rule arrayMove_Inr)
  from splice_mset[of xs f 1 "[]"] sp have m1: "mset rest + {#moved#} = mset xs" by (simp add: add.commute)
  from splice_mset[of rest _ 0 "[moved]"] splice_none_removed[of rest _ "[moved]"] ys
  have "mset ys = mset rest + {#moved#}" by simp
  with m1 show ?thesis by simp 
qed

lemma arrayMove_defined:
  assumes "xs \<noteq> []" "f < int (length xs)"
  shows "\<exists>ys. arrayMove xs f t = Inr ys"
proof -
  define a where "a = (if f < 0 then max (int (length xs) + f) 0 else min f (int (length xs)))"
  have a: "0 \<le> a" "a < int (length xs)" using assms unfolding a_def by (auto simp: min_def max_def)
  then have "min 1 (int (length xs) - a) = 1" by simp
  then have "fst (splice xs f 1 []) = take 1 (drop (nat a) xs)"
    unfolding splice_def Let_def a_def[symmetric] by simp
  moreover have "drop (nat a) xs \<noteq> []" using a by simp
  ultimately have "fst (splice xs f 1 []) \<noteq> []" by (cases "drop (nat a) xs") auto
  then show ?thesis
    by (auto simp: arrayMove_def Let_def split: list.splits prod.splits)
qed

lemma arrayMove_in_range:
  assumes "i < length xs" "j < length xs"
  shows "arrayMove xs (int i) (int j) =
           Inr (take j (take i xs @ drop (Suc i) xs) @ xs ! i # drop j (take i xs @ drop (Suc i) xs))"
proof -
  have "min 1 (int (length xs) - int i) = 1" using assms(1) by simp
  then have rm: "splice xs (int i) 1 [] = (take 1 (drop i xs), take i xs @ drop (Suc i) xs)"
    using assms(1) unfolding splice_def Let_def by (simp add: min_def nat_add_distrib)
  have t1: "take 1 (drop i xs) = [xs ! i]" using assms(1)
    by (metis Cons_nth_drop_Suc One_nat_def take0 take_Suc_Cons)
  define rest where "rest = take i xs @ drop (Suc i) xs"
  have len: "int j \<le> int (length rest)" using assms unfolding rest_def by auto
  have ins: "snd (splice rest (int j) 0 [xs ! i]) = take j rest @ xs ! i # drop j rest"
    using len unfolding splice_def Let_def by (simp add: min_def)
  show ?thesis unfolding arrayMove_def Let_def rm t1 rest_def[symmetric] using ins by simp
qed

lemma arrayMove_length: "arrayMove xs f t = Inr ys \<Longrightarrow> length ys = length xs"
  by (metis arrayMove_mset size_mset)

lemma arrayMove_nth:
  assumes "i < length xs" "j < length xs" "i \<noteq> j"
  shows "\<exists>ys. arrayMove xs (int i) (int j) = Inr ys \<and> ys ! j = xs ! i \<and>
    (i < j \<longrightarrow> ys ! (j - 1) = xs ! j) \<and> (j < i \<longrightarrow> ys ! (j + 1) = xs ! j)"
proof -
  define rest where "rest = take i xs @ drop (Suc i) xs"
  define ys where "ys = take j rest @ xs ! i # drop j rest"
  have am: "arrayMove xs (int i) (int j) = Inr ys"
    unfolding ys_def rest_def by (rule arrayMove_in_range[OF assms(1,2)])
  have len: "length rest = length xs - 1" using assms(1) unfolding rest_def by auto
  have jl: "j \<le> length rest" using assms len by simp
  have a: "ys ! j = xs ! i" unfolding ys_def using jl by (simp add: nth_append)
  have b: "ys ! (j - 1) = xs ! j" if "i < j"
  proof -
    have "ys ! (j - 1) = rest ! (j - 1)" unfolding ys_def using jl that by (simp add: nth_append)
    also have "\<dots> = xs ! j" unfolding rest_def using that assms by (auto simp: nth_append min_def)
    finally show ?thesis .
  qed
  have c: "ys ! (j + 1) = xs ! j" if "j < i"
  proof -
    have "ys ! (j + 1) = rest ! j" unfolding ys_def using jl that by (simp add: nth_append)
    also have "\<dots> = xs ! j" unfolding rest_def using that assms by (auto simp: nth_append min_def)
    finally show ?thesis .
  qed
  show ?thesis using am a b c by blast
qed

lemma findIndex_present:
  assumes "x \<in> set xs" "p x"
  obtains i where "findIndex p xs = int i" "i < length xs" "p (xs ! i)"
proof -
  from assms have "first_index p xs \<noteq> None" by (auto simp: first_index_None)
  then obtain i where i: "first_index p xs = Some i" by auto
  from first_index_Some[OF i] i show thesis using that by (simp add: findIndex_def)
qed

lemma findIndex_distinct:
  assumes "distinct (map f xs)" "i < length xs" "f (xs ! i) = k"
  shows "findIndex (\<lambda>x. f x = k) xs = int i"
proof -
  from assms(2,3) have "xs ! i \<in> set xs" "f (xs ! i) = k" by auto
  then obtain j where j: "findIndex (\<lambda>x. f x = k) xs = int j" "j < length xs" "f (xs ! j) = k"
    by (rule findIndex_present[where p = "\<lambda>x. f x = k"])
  from assms j have "map f xs ! i = map f xs ! j" by simp
  with assms(1,2) j(2) have "i = j" by (metis nth_eq_iff_index_eq length_map)
  with j show ?thesis by simp
qed

section \<open>Drag end without a target, or onto the dragged element itself\<close>

text \<open>
  Claim C10. When the event has no drop target (\<open>over\<close> is \<open>null\<close>) or the identifier of
  the dragged element is the identifier of the target, the handler of the sortable list
  leaves the list as it is and the handler of the Kanban board leaves the board as it is
  (the whole page state, in both cases).
\<close>

theorem drag_end_without_move_keeps_state:
  "over event = None \<or> over event = Some (active event) \<Longrightarrow>
     SortableListPage_handleDragEnd event items = Inr items \<and>
     KanbanBoardPage_handleDragEnd event st = Inr st"
  by (auto simp: SortableListPage_handleDragEnd_def KanbanBoardPage_handleDragEnd_def Let_def)

theorem drag_end_without_move_keeps_state_witness:
  "SortableListPage_handleDragEnd \<lparr>active = ''1'', over = None\<rparr> initialItems = Inr initialItems \<and>
   KanbanBoardPage_handleDragEnd \<lparr>active = ''1'', over = None\<rparr>
       \<lparr>kanban_tasks = initialTasks, kanban_activeTask = None\<rparr>
     = Inr \<lparr>kanban_tasks = initialTasks, kanban_activeTask = None\<rparr>"
  using drag_end_without_move_keeps_state
          [of "\<lparr>active = ''1'', over = None\<rparr>" initialItems
              "\<lparr>kanban_tasks = initialTasks, kanban_activeTask = None\<rparr>"]
  by simp

section \<open>The reference to the dragged element at the end of a drag\<close>

text \<open>
  On the overlay page the handler clears \<open>activeItem\<close> on every path.
\<close>

lemma overlay_drag_end_clears_activeItem:
  "CustomOverlayPage_handleDragEnd event st = Inr st' \<Longrightarrow> overlay_activeItem st' = None"
  by (auto simp: CustomOverlayPage_handleDragEnd_def split: sum.splits)

text \<open>
  Claim C2. The claim says that \<open>activeTask\<close> is \<open>null\<close> after every drag end on the
  Kanban board, also when there is no drop target and when the active identifier is the
  identifier of the target. The board's handler returns before it reaches
  \<open>setActiveTask(null)\<close>: a task picked up on the initial board and released over
  nothing, or over itself, is still the active task afterwards.
\<close>

theorem kanban_drag_end_without_target_keeps_activeTask:
  "KanbanBoardPage_handleDragEnd \<lparr>active = ''task-1'', over = None\<rparr>
     (KanbanBoardPage_handleDragStart \<lparr>active = ''task-1'', over = None\<rparr>
        \<lparr>kanban_tasks = initialTasks, kanban_activeTask = None\<rparr>)
   = Inr \<lparr>kanban_tasks = initialTasks,
          kanban_activeTask =
            Some \<lparr>task_id = ''task-1'', task_content = ''Research competitors'', priority = High\<rparr>\<rparr> \<and>
   KanbanBoardPage_handleDragEnd \<lparr>active = ''task-1'', over = Some ''task-1''\<rparr>
     (KanbanBoardPage_handleDragStart \<lparr>active = ''task-1'', over = None\<rparr>
        \<lparr>kanban_tasks = initialTasks, kanban_activeTask = None\<rparr>)
   = Inr \<lparr>kanban_tasks = initialTasks,
          kanban_activeTask =
            Some \<lparr>task_id = ''task-1'', task_content = ''Research competitors'', priority = High\<rparr>\<rparr>"
  by (simp add: KanbanBoardPage_handleDragEnd_def KanbanBoardPage_handleDragStart_def
        findColumnOfTask_def initialTasks_def truthy_def Let_def)

section \<open>Reset\<close>

text \<open>
  Claim C6. In every page state, hence in every reachable one, the reset action of a
  page (\<open>resetList\<close>, \<open>resetItems\<close>, \<open>resetBoard\<close>, \<open>resetPositions\<close>) puts the hardcoded
  initial list or board back, and a second reset changes nothing. No handler writes into
  the initial arrays: each one copies (\<open>slice\<close>, \<open>Array.from\<close>, \<open>map\<close>, spread) before it
  changes anything, so the constants are the values they had at page load.
\<close>

theorem reset_restores_initial_state:
  "SortableListPage_resetList items = initialItems \<and>
   SortableListPage_resetList (SortableListPage_resetList items) = SortableListPage_resetList items \<and>
   overlay_items (CustomOverlayPage_resetItems ost) = fileItems \<and>
   CustomOverlayPage_resetItems (CustomOverlayPage_resetItems ost) = CustomOverlayPage_resetItems ost \<and>
   kanban_tasks (KanbanBoardPage_resetBoard kst) = initialTasks \<and>
   KanbanBoardPage_resetBoard (KanbanBoardPage_resetBoard kst) = KanbanBoardPage_resetBoard kst \<and>
   fp_items (FreePositioningPage_resetPositions stringify pst) = FreePositioningPage_initialItems \<and>
   FreePositioningPage_resetPositions stringify (FreePositioningPage_resetPositions stringify pst)
     = FreePositioningPage_resetPositions stringify pst"
  by (simp add: SortableListPage_resetList_def CustomOverlayPage_resetItems_def
        KanbanBoardPage_resetBoard_def FreePositioningPage_resetPositions_def useEffect_save_def)

section \<open>Sortable list: where the dragged item lands\<close>

text \<open>
  Claim C5, as stated, is false: dragging item \<open>1\<close> of the initial list onto item \<open>2\<close>,
  which is below it, gives the order 2, 1, 3, 4, 5, 6, where item \<open>1\<close> does not
  precede item \<open>2\<close>.
\<close>

theorem sortable_drag_downwards_counterexample:
  "''1'' \<in> set (map item_id initialItems) \<and> ''2'' \<in> set (map item_id initialItems) \<and>
   (case SortableListPage_handleDragEnd \<lparr>active = ''1'', over = Some ''2''\<rparr> initialItems of
      Inl e \<Rightarrow> False
    | Inr items' \<Rightarrow> map item_id items' = [''2'', ''1'', ''3'', ''4'', ''5'', ''6''] \<and> \<not> precedes ''1'' ''2'' items')"
  by (simp add: SortableListPage_handleDragEnd_def initialItems_def findIndex_def arrayMove_def splice_def precedes_def Let_def)

text \<open>
  Claim C5, amended. In a list whose identifiers are pairwise different, dragging item A
  onto a different item B permutes the list and puts A at the index B had. When A was
  above B (dragged downwards), B precedes A afterwards; when A was below B (dragged
  upwards), A precedes B afterwards. So A precedes B afterwards exactly when B preceded
  A before.
\<close>

theorem sortable_drag_lands_on_over_index:
  assumes "distinct (map item_id items)"
    and "a \<in> set (map item_id items)" and "b \<in> set (map item_id items)" and "a \<noteq> b"
  shows "\<exists>items'. SortableListPage_handleDragEnd \<lparr>active = a, over = Some b\<rparr> items = Inr items' \<and>
           findIndex (\<lambda>item. item_id item = a) items' = findIndex (\<lambda>item. item_id item = b) items \<and>
           (precedes a b items' \<longleftrightarrow> precedes b a items) \<and>
           (precedes a b items \<longrightarrow> precedes b a items') \<and>
           (precedes b a items \<longrightarrow> precedes a b items') \<and>
           mset items' = mset items"
proof -
  from assms(2) obtain x where "x \<in> set items" "item_id x = a" by auto
  then obtain i where i: "findIndex (\<lambda>item. item_id item = a) items = int i" "i < length items" "item_id (items ! i) = a"
    by (rule findIndex_present[where p = "\<lambda>item. item_id item = a"])
  from assms(3) obtain y where "y \<in> set items" "item_id y = b" by auto
  then obtain j where j: "findIndex (\<lambda>item. item_id item = b) items = int j" "j < length items" "item_id (items ! j) = b"
    by (rule findIndex_present[where p = "\<lambda>item. item_id item = b"])
  from i(3) j(3) assms(4) have ij: "i \<noteq> j" by auto
  from arrayMove_nth[OF i(2) j(2) ij] obtain ys where ys: "arrayMove items (int i) (int j) = Inr ys" "ys ! j = items ! i"
    "i < j \<Longrightarrow> ys ! (j - 1) = items ! j" "j < i \<Longrightarrow> ys ! (j + 1) = items ! j"
    by blast
  have h: "SortableListPage_handleDragEnd \<lparr>active = a, over = Some b\<rparr> items = Inr ys"
    using assms(4) i(1) j(1) ys(1) by (simp add: SortableListPage_handleDragEnd_def)
  have len: "length ys = length items" using ys(1) by (rule arrayMove_length)
  have ms: "mset ys = mset items" using ys(1) by (rule arrayMove_mset)
  then have "mset (map item_id ys) = mset (map item_id items)" by simp
  with assms(1) have d: "distinct (map item_id ys)" by (metis mset_eq_imp_distinct_iff)
  have fa: "findIndex (\<lambda>item. item_id item = a) ys = int j"
    using d j(2) len ys(2) i(3) by (intro findIndex_distinct) auto
  have fb: "findIndex (\<lambda>item. item_id item = b) ys = (if i < j then int (j - 1) else int (j + 1))"
  proof (cases "i < j")
    case True
    with ys(3) j(3) have "item_id (ys ! (j - 1)) = b" by simp
    moreover have "j - 1 < length ys" using j(2) len by simp
    ultimately show ?thesis using d True by (simp add: findIndex_distinct)
  next
    case False
    with ij have lt: "j < i" by simp
    with ys(4) j(3) have "item_id (ys ! (j + 1)) = b" by simp
    moreover have "j + 1 < length ys" using lt i(2) len by simp
    ultimately show ?thesis using d False by (simp add: findIndex_distinct)
  qed
  have p1: "precedes a b ys \<longleftrightarrow> precedes b a items"
    unfolding precedes_def fa fb i(1) j(1) using ij by auto
  have p2: "precedes a b items \<longrightarrow> precedes b a ys"
    unfolding precedes_def fa fb i(1) j(1) using ij by auto
  have p3: "precedes b a items \<longrightarrow> precedes a b ys"
    unfolding precedes_def fa fb i(1) j(1) using ij by auto
  from h fa j(1) p1 p2 p3 ms show ?thesis by simp
qed

theorem sortable_drag_lands_on_over_index_witness:
  "distinct (map item_id initialItems) \<and> ''4'' \<in> set (map item_id initialItems) \<and>
   ''2'' \<in> set (map item_id initialItems) \<and> ''1'' \<in> set (map item_id initialItems) \<and>
   (\<exists>items'. SortableListPage_handleDragEnd \<lparr>active = ''4'', over = Some ''2''\<rparr> initialItems = Inr items' \<and>
      findIndex (\<lambda>item. item_id item = ''4'') items' = 1 \<and> precedes ''4'' ''2'' items') \<and>
   (\<exists>items'. SortableListPage_handleDragEnd \<lparr>active = ''1'', over = Some ''2''\<rparr> initialItems = Inr items' \<and>
      findIndex (\<lambda>item. item_id item = ''1'') items' = 1 \<and> precedes ''2'' ''1'' items')"
proof -
  have d: "distinct (map item_id initialItems)" by (simp add: initialItems_def)
  have a: "''4'' \<in> set (map item_id initialItems)" by (simp add: initialItems_def)
  have b: "''2'' \<in> set (map item_id initialItems)" by (simp add: initialItems_def)
  have c: "''1'' \<in> set (map item_id initialItems)" by (simp add: initialItems_def)
  have ne: "''4'' \<noteq> ''2''" "''1'' \<noteq> ''2''" by simp_all
  have i: "findIndex (\<lambda>item. item_id item = ''2'') initialItems = 1"
    by (simp add: initialItems_def findIndex_def)
  have p: "precedes ''2'' ''4'' initialItems" "precedes ''1'' ''2'' initialItems"
    by (simp_all add: initialItems_def findIndex_def precedes_def)
  show ?thesis
    using sortable_drag_lands_on_over_index [OF d a b ne(1)]
          sortable_drag_lands_on_over_index [OF d c b ne(2)] d a b c i p by auto
qed

section \<open>Free positioning: what a drag changes\<close>

text \<open>
  Claim C9. After a drag end with active identifier A and distance \<open>(dx, dy)\<close> the list has
  the same length, the same identifiers and the same labels in the same order; at every
  index, an item whose identifier is A has \<open>dx\<close> added to its \<open>x\<close> and \<open>dy\<close> added to its
  \<open>y\<close>, and an item with another identifier is unchanged.
\<close>

theorem free_positioning_drag_moves_only_active:
  fixes st :: "'n::plus FreePositioningPage" and event :: "('n, 'z) DragMoveEvent_scheme"
    and stringify :: "'n json_stringify"
  defines "st' \<equiv> FreePositioningPage_handleDragEnd stringify event st"
  shows "length (fp_items st') = length (fp_items st) \<and>
         map pitem_id (fp_items st') = map pitem_id (fp_items st) \<and>
         map label (fp_items st') = map label (fp_items st) \<and>
         (\<forall>i < length (fp_items st).
            (pitem_id (fp_items st ! i) = active event \<longrightarrow>
               coord_x (position (fp_items st' ! i))
                 = coord_x (position (fp_items st ! i)) + coord_x (delta event) \<and>
               coord_y (position (fp_items st' ! i))
                 = coord_y (position (fp_items st ! i)) + coord_y (delta event)) \<and>
            (pitem_id (fp_items st ! i) \<noteq> active event \<longrightarrow> fp_items st' ! i = fp_items st ! i))"
  unfolding st'_def
  by (simp add: FreePositioningPage_handleDragEnd_def setItems_def useEffect_save_def
        FreePositioningPage_setItems_updater_def)

theorem free_positioning_drag_moves_only_active_witness:
  "coord_x (position (fp_items (FreePositioningPage_handleDragEnd (\<lambda>items. [])
       \<lparr>active = ''item-1'', over = None, delta = \<lparr>coord_x = 5, coord_y = 7\<rparr>\<rparr>
       \<lparr>fp_items = FreePositioningPage_initialItems, items_is_initialItems = True,
         localStorage = Map.empty, console = []\<rparr>) ! 0))
     = (55 :: int) \<and>
   fp_items (FreePositioningPage_handleDragEnd (\<lambda>items. [])
       \<lparr>active = ''item-1'', over = None, delta = \<lparr>coord_x = 5, coord_y = 7\<rparr>\<rparr>
       \<lparr>fp_items = FreePositioningPage_initialItems, items_is_initialItems = True,
         localStorage = Map.empty, console = []\<rparr>) ! 1
     = (FreePositioningPage_initialItems :: int PositionableItem list) ! 1"
proof -
  let ?ev = "\<lparr>active = ''item-1'', over = None, delta = \<lparr>coord_x = 5 :: int, coord_y = 7\<rparr>\<rparr>"
  let ?st = "\<lparr>fp_items = FreePositioningPage_initialItems :: int PositionableItem list,
              items_is_initialItems = True, localStorage = Map.empty, console = []\<rparr>"
  note h = free_positioning_drag_moves_only_active
             [where st = ?st and stringify = "\<lambda>items. []" and event = ?ev]
  have len: "length (fp_items ?st) = 3" by (simp add: FreePositioningPage_initialItems_def)
  from h len have at: "\<And>i. i < 3 \<Longrightarrow>
      (pitem_id (fp_items ?st ! i) = active ?ev \<longrightarrow>
         coord_x (position (fp_items (FreePositioningPage_handleDragEnd (\<lambda>items. []) ?ev ?st) ! i))
           = coord_x (position (fp_items ?st ! i)) + coord_x (delta ?ev)) \<and>
      (pitem_id (fp_items ?st ! i) \<noteq> active ?ev \<longrightarrow>
         fp_items (FreePositioningPage_handleDragEnd (\<lambda>items. []) ?ev ?st) ! i = fp_items ?st ! i)"
    by simp
  from at [of 0] at [of 1] show ?thesis
    by (simp add: FreePositioningPage_initialItems_def)
qed

section \<open>Free positioning: local storage\<close>

text \<open>The page after mount, by what the storage holds under the key of the page.\<close>

lemma mount_cases:
  "FreePositioningPage_mount parse stringify storage =
     (case storage storage_key of
        None \<Rightarrow>
          \<lparr>fp_items = FreePositioningPage_initialItems, items_is_initialItems = True,
           localStorage = storage(storage_key \<mapsto> stringify FreePositioningPage_initialItems),
           console = []\<rparr>
      | Some s \<Rightarrow>
          if truthy s then
            (case parse s of
               None \<Rightarrow>
                 \<lparr>fp_items = FreePositioningPage_initialItems, items_is_initialItems = True,
                  localStorage = storage(storage_key \<mapsto> stringify FreePositioningPage_initialItems),
                  console = [''Failed to parse saved items:'']\<rparr>
             | Some decoded \<Rightarrow>
                 \<lparr>fp_items = decoded, items_is_initialItems = False,
                  localStorage = storage(storage_key \<mapsto> stringify decoded),
                  console = []\<rparr>)
          else
            \<lparr>fp_items = FreePositioningPage_initialItems, items_is_initialItems = True,
             localStorage = storage(storage_key \<mapsto> stringify FreePositioningPage_initialItems),
             console = []\<rparr>)"
  by (simp add: FreePositioningPage_mount_def useEffect_load_def useEffect_save_def setItems_def
        Let_def split: option.splits)

text \<open>
  Claim C3, as stated, is false when the string stored under the key is the empty string.
  No decoder accepts the empty string (\<open>JSON.parse("")\<close> throws), yet nothing is logged:
  the guard \<open>if (savedItems)\<close> takes the empty string for an absent value and the
  decoder is not called. The decoder of the counterexample rejects every string.
\<close>

theorem free_positioning_empty_saved_text_counterexample:
  "(Map.empty(storage_key \<mapsto> [])) storage_key = Some [] \<and>
   (\<lambda>s. None :: int PositionableItem list option) [] = None \<and>
   console (FreePositioningPage_mount (\<lambda>s. None) (\<lambda>items. ''[]'') (Map.empty(storage_key \<mapsto> []))
            :: int FreePositioningPage) = []"
  by (simp add: mount_cases truthy_def)

text \<open>
  Claim C3, amended. If the string stored under the key is not empty and cannot be
  decoded, the page after mount has the hardcoded initial list and the failure has been
  logged. If the stored string is empty, the page has the initial list and nothing has
  been logged. A failure is logged on mount in the first case only, and neither the drag
  handler nor the reset logs anything.
\<close>

theorem free_positioning_undecodable_saved_text:
  fixes parse :: "('n::numeral) json_parse"
  shows
  "(storage storage_key = Some s \<and> truthy s \<and> parse s = None \<longrightarrow>
      fp_items (FreePositioningPage_mount parse stringify storage) = FreePositioningPage_initialItems \<and>
      console (FreePositioningPage_mount parse stringify storage) = [''Failed to parse saved items:'']) \<and>
   (storage storage_key = Some [] \<longrightarrow>
      fp_items (FreePositioningPage_mount parse stringify storage) = FreePositioningPage_initialItems \<and>
      console (FreePositioningPage_mount parse stringify storage) = []) \<and>
   (console (FreePositioningPage_mount parse stringify storage) \<noteq> [] \<longleftrightarrow>
      (\<exists>saved. storage storage_key = Some saved \<and> truthy saved \<and> parse saved = None)) \<and>
   console (FreePositioningPage_handleDragEnd stringify event st) = console st \<and>
   console (FreePositioningPage_resetPositions stringify st') = console st'"
  by (auto simp: mount_cases truthy_def FreePositioningPage_handleDragEnd_def
        FreePositioningPage_resetPositions_def setItems_def useEffect_save_def split: option.splits)

theorem free_positioning_undecodable_saved_text_witness:
  "(Map.empty(storage_key \<mapsto> ''{broken'')) storage_key = Some ''{broken'' \<and> truthy ''{broken'' \<and>
   fp_items (FreePositioningPage_mount (\<lambda>s. None) (\<lambda>items. ''[]'') (Map.empty(storage_key \<mapsto> ''{broken'')))
     = (FreePositioningPage_initialItems :: int PositionableItem list) \<and>
   console (FreePositioningPage_mount (\<lambda>s. None) (\<lambda>items. ''[]'') (Map.empty(storage_key \<mapsto> ''{broken''))
            :: int FreePositioningPage) = [''Failed to parse saved items:'']"
  using free_positioning_undecodable_saved_text
          [where parse = "\<lambda>s. None :: int PositionableItem list option"
             and stringify = "\<lambda>items. ''[]''" and storage = "Map.empty(storage_key \<mapsto> ''{broken'')"
             and s = "''{broken''"
             and event = "\<lparr>active = ''item-1'', over = None, delta = \<lparr>coord_x = 0, coord_y = 0\<rparr>\<rparr>"
             and st = "\<lparr>fp_items = [], items_is_initialItems = False,
                         localStorage = Map.empty, console = []\<rparr>"
             and st' = "\<lparr>fp_items = [], items_is_initialItems = False,
                          localStorage = Map.empty, console = []\<rparr>"]
  by (simp add: truthy_def)

text \<open>
  In every state the page can reach, the storage holds under the key of the page the
  encoding of the list of the page (the page being the only one to write there).
\<close>

lemma free_positioning_reachable_saved:
  "FreePositioningPage_reachable parse stringify st \<Longrightarrow>
     localStorage st storage_key = Some (stringify (fp_items st))"
proof (induction rule: FreePositioningPage_reachable.induct)
  case (free_positioning_load storage)
  show ?case by (simp add: mount_cases split: option.splits)
next
  case (free_positioning_drag st event)
  show ?case by (simp add: FreePositioningPage_handleDragEnd_def setItems_def useEffect_save_def)
next
  case (free_positioning_reset st)
  then show ?case by (simp add: FreePositioningPage_resetPositions_def useEffect_save_def)
qed

text \<open>
  Claim C4. The key is \<open>free-positioning-items\<close>. On mount, a stored value that decodes
  becomes the state of the page (the decoder is any function that, like \<open>JSON.parse\<close>,
  rejects the empty string). After mount and after a drag end the storage holds, under
  that key, the encoding of the list the page then has. So it does after a reset that
  changes the state; a reset of a page whose array is \<open>initialItems\<close> already changes
  nothing and writes nothing. In every state the page can reach, the storage holds under
  that key the encoding of the list of the page. Every other key of the storage is as it
  was.
\<close>

theorem free_positioning_persists_items:
  fixes parse :: "('n::numeral) json_parse"
  assumes "parse [] = None"
  shows
  "storage_key = ''free-positioning-items'' \<and>
   (storage storage_key = Some s \<and> parse s = Some decoded \<longrightarrow>
      fp_items (FreePositioningPage_mount parse stringify storage) = decoded) \<and>
   (\<forall>st' \<in> {FreePositioningPage_mount parse stringify storage,
              FreePositioningPage_handleDragEnd stringify event st}.
      localStorage st' storage_key = Some (stringify (fp_items st'))) \<and>
   (\<not> (items_is_initialItems st \<and> fp_items st = FreePositioningPage_initialItems) \<longrightarrow>
      localStorage (FreePositioningPage_resetPositions stringify st) storage_key
        = Some (stringify (fp_items (FreePositioningPage_resetPositions stringify st)))) \<and>
   (items_is_initialItems st \<and> fp_items st = FreePositioningPage_initialItems \<longrightarrow>
      FreePositioningPage_resetPositions stringify st = st) \<and>
   (FreePositioningPage_reachable parse stringify reached \<longrightarrow>
      localStorage reached storage_key = Some (stringify (fp_items reached))) \<and>
   (\<forall>k. k \<noteq> storage_key \<longrightarrow>
      localStorage (FreePositioningPage_mount parse stringify storage) k = storage k \<and>
      localStorage (FreePositioningPage_handleDragEnd stringify event st) k = localStorage st k \<and>
      localStorage (FreePositioningPage_resetPositions stringify st) k = localStorage st k)"
proof -
  have 1: "storage_key = ''free-positioning-items''" by (simp add: storage_key_def)
  have 2: "storage storage_key = Some s \<and> parse s = Some decoded \<longrightarrow>
      fp_items (FreePositioningPage_mount parse stringify storage) = decoded"
    using assms by (auto simp: mount_cases truthy_def)
  have 3: "\<forall>st' \<in> {FreePositioningPage_mount parse stringify storage,
              FreePositioningPage_handleDragEnd stringify event st}.
      localStorage st' storage_key = Some (stringify (fp_items st'))"
    by (auto simp: mount_cases FreePositioningPage_handleDragEnd_def setItems_def useEffect_save_def
          split: option.splits)
  have 4: "\<not> (items_is_initialItems st \<and> fp_items st = FreePositioningPage_initialItems) \<longrightarrow>
      localStorage (FreePositioningPage_resetPositions stringify st) storage_key
        = Some (stringify (fp_items (FreePositioningPage_resetPositions stringify st)))"
    by (simp add: FreePositioningPage_resetPositions_def useEffect_save_def)
  have 5: "items_is_initialItems st \<and> fp_items st = FreePositioningPage_initialItems \<longrightarrow>
      FreePositioningPage_resetPositions stringify st = st"
    by (simp add: FreePositioningPage_resetPositions_def)
  have 6: "FreePositioningPage_reachable parse stringify reached \<longrightarrow>
      localStorage reached storage_key = Some (stringify (fp_items reached))"
    by (simp add: free_positioning_reachable_saved)
  have 7: "\<forall>k. k \<noteq> storage_key \<longrightarrow>
      localStorage (FreePositioningPage_mount parse stringify storage) k = storage k \<and>
      localStorage (FreePositioningPage_handleDragEnd stringify event st) k = localStorage st k \<and>
      localStorage (FreePositioningPage_resetPositions stringify st) k = localStorage st k"
    by (auto simp: mount_cases FreePositioningPage_handleDragEnd_def
          FreePositioningPage_resetPositions_def setItems_def useEffect_save_def split: option.splits)
  from 1 2 3 4 5 6 7 show ?thesis by blast
qed

theorem free_positioning_persists_items_witness:
  "(\<lambda>s. if s = ''[]'' then Some [] else None :: int PositionableItem list option) [] = None \<and>
   (Map.empty(storage_key \<mapsto> ''[]'')) storage_key = Some ''[]'' \<and>
   fp_items (FreePositioningPage_mount (\<lambda>s. if s = ''[]'' then Some [] else None)
               (\<lambda>items. if items = [] then ''[]'' else ''[...]'') (Map.empty(storage_key \<mapsto> ''[]''))
             :: int FreePositioningPage) = [] \<and>
   localStorage (FreePositioningPage_mount (\<lambda>s. if s = ''[]'' then Some [] else None)
               (\<lambda>items. if items = [] then ''[]'' else ''[...]'') (Map.empty(storage_key \<mapsto> ''[]''))
             :: int FreePositioningPage) storage_key = Some ''[]'' \<and>
   localStorage (FreePositioningPage_mount (\<lambda>s. if s = ''[]'' then Some [] else None)
               (\<lambda>items. if items = [] then ''[]'' else ''[...]'') (Map.empty(storage_key \<mapsto> ''[]''))
             :: int FreePositioningPage) ''theme'' = None \<and>
   localStorage (FreePositioningPage_resetPositions (\<lambda>items. if items = [] then ''[]'' else ''[...]'')
       (\<lparr>fp_items = [], items_is_initialItems = False, localStorage = Map.empty, console = []\<rparr>
          :: int FreePositioningPage)) storage_key = Some ''[...]'' \<and>
   FreePositioningPage_resetPositions (\<lambda>items. if items = [] then ''[]'' else ''[...]'')
       (\<lparr>fp_items = FreePositioningPage_initialItems, items_is_initialItems = True,
         localStorage = Map.empty, console = []\<rparr> :: int FreePositioningPage)
     = \<lparr>fp_items = FreePositioningPage_initialItems, items_is_initialItems = True,
         localStorage = Map.empty, console = []\<rparr>"
proof -
  let ?parse = "\<lambda>s. if s = ''[]'' then Some [] else None :: int PositionableItem list option"
  let ?stringify = "\<lambda>items :: int PositionableItem list. if items = [] then ''[]'' else ''[...]''"
  let ?storage = "Map.empty(storage_key \<mapsto> ''[]'')"
  let ?ev = "\<lparr>active = ''item-1'', over = None, delta = \<lparr>coord_x = 0 :: int, coord_y = 0\<rparr>\<rparr>"
  let ?moved = "\<lparr>fp_items = [], items_is_initialItems = False, localStorage = Map.empty, console = []\<rparr>
                  :: int FreePositioningPage"
  let ?fresh = "\<lparr>fp_items = FreePositioningPage_initialItems, items_is_initialItems = True,
                  localStorage = Map.empty, console = []\<rparr> :: int FreePositioningPage"
  have rejects: "?parse [] = None" by simp
  note h1 = free_positioning_persists_items
               [where parse = ?parse and stringify = ?stringify and storage = ?storage
                and s = "''[]''" and decoded = "[]" and event = ?ev and st = ?moved
                and reached = "FreePositioningPage_mount ?parse ?stringify ?storage", OF rejects]
  note h2 = free_positioning_persists_items
               [where parse = ?parse and stringify = ?stringify and storage = ?storage
                and s = "''[]''" and decoded = "[]" and event = ?ev and st = ?fresh
                and reached = "FreePositioningPage_mount ?parse ?stringify ?storage", OF rejects]
  have ne: "''theme'' \<noteq> storage_key" by (simp add: storage_key_def)
  have ni: "(FreePositioningPage_initialItems :: int PositionableItem list) \<noteq> []"
    by (simp add: FreePositioningPage_initialItems_def)
  have fi: "fp_items (FreePositioningPage_resetPositions ?stringify ?moved) = FreePositioningPage_initialItems"
    by (simp add: FreePositioningPage_resetPositions_def useEffect_save_def)
  from h1 h2 ne ni fi show ?thesis by auto
qed

section \<open>Facts about objects and their containers\<close>

lemma splice_remove_at:
  assumes "i < length xs"
  shows "splice xs (int i) 1 [] = ([xs ! i], take i xs @ drop (Suc i) xs)"
proof -
  have "min 1 (int (length xs) - int i) = 1" using assms by simp
  then have rm: "splice xs (int i) 1 [] = (take 1 (drop i xs), take i xs @ drop (Suc i) xs)"
    using assms unfolding splice_def Let_def by (simp add: min_def nat_add_distrib)
  have "take 1 (drop i xs) = [xs ! i]" using assms
    by (metis Cons_nth_drop_Suc One_nat_def take0 take_Suc_Cons)
  with rm show ?thesis by simp
qed

lemma first_index_remove1:
  "first_index (\<lambda>y. y = x) xs = Some i \<Longrightarrow> take i xs @ drop (Suc i) xs = remove1 x xs"
proof (induction xs arbitrary: i)
  case Nil then show ?case by simp
next
  case (Cons y ys)
  show ?case
  proof (cases "y = x")
    case True with Cons.prems show ?thesis by simp
  next
    case False
    with Cons.prems obtain k where k: "first_index (\<lambda>y. y = x) ys = Some k" "i = Suc k" by auto
    from Cons.IH[OF k(1)] False k(2) show ?thesis by simp
  qed
qed

lemma splice_indexOf_remove1:
  assumes "x \<in> set xs"
  shows "snd (splice xs (indexOf xs x) 1 []) = remove1 x xs"
proof -
  from assms have "first_index (\<lambda>y. y = x) xs \<noteq> None" by (auto simp: first_index_None)
  then obtain i where i: "first_index (\<lambda>y. y = x) xs = Some i" by auto
  from first_index_Some[OF i] have "i < length xs" by simp
  from splice_remove_at[OF this] first_index_remove1[OF i] i show ?thesis
    by (simp add: indexOf_def findIndex_def)
qed

lemma held_update:
  "map_of obj k = Some old \<Longrightarrow> mset (held (AList.update k v obj)) + mset old = mset (held obj) + mset v"
proof (induction obj)
  case Nil then show ?case by simp
next
  case (Cons p obj)
  obtain k' v' where p: "p = (k', v')" by (cases p)
  show ?case
  proof (cases "k' = k")
    case True with Cons.prems p show ?thesis by (simp add: held_def)
  next
    case False
    with Cons.prems p have "map_of obj k = Some old" by simp
    from Cons.IH[OF this] False p show ?thesis by (simp add: held_def add.assoc)
  qed
qed

lemma keys_update:
  "map_of obj k = Some old \<Longrightarrow> map fst (AList.update k v obj) = map fst obj"
  by (simp add: update_keys map_of_eq_None_iff[symmetric] del: map_of_eq_None_iff)

lemma map_of_held:
  "map_of obj k = Some there \<Longrightarrow> set there \<subseteq> set (held obj)"
  by (induction obj) (auto simp: held_def split: if_splits)

lemma move_between:
  assumes a: "map_of obj a = Some src" and o: "map_of obj b = Some dst" and ne: "a \<noteq> b"
    and m: "mset src' + {#x#} = mset src" and m': "mset dst' = mset dst + {#x#}"
  shows "mset (held (AList.update b dst' (AList.update a src' obj))) = mset (held obj)"
    and "map fst (AList.update b dst' (AList.update a src' obj)) = map fst obj"
proof -
  let ?mid = "AList.update a src' obj"
  have mo: "map_of ?mid b = Some dst" using o ne by (simp add: update_conv')
  have 1: "mset (held ?mid) + mset src = mset (held obj) + mset src'" by (rule held_update[OF a])
  have 2: "mset (held (AList.update b dst' ?mid)) + mset dst = mset (held ?mid) + mset dst'"
    by (rule held_update[OF mo])
  from 1 2 m m' have "mset (held (AList.update b dst' ?mid)) + mset dst + mset src' + {#x#}
      = mset (held obj) + mset src' + mset dst + {#x#}"
    by (metis (no_types, lifting) add.assoc add.commute)
  then show "mset (held (AList.update b dst' (AList.update a src' obj))) = mset (held obj)"
    by (simp add: ac_simps)
  show "map fst (AList.update b dst' (AList.update a src' obj)) = map fst obj"
    using keys_update[OF mo] keys_update[OF a] by simp
qed

lemma separate_same_content:
  assumes "separate_identifiers obj ident" "mset (held obj') = mset (held obj)" "map fst obj' = map fst obj"
  shows "separate_identifiers obj' ident"
proof -
  from assms(2) have "mset (map ident (held obj')) = mset (map ident (held obj))" by simp
  then have d: "distinct (map ident (held obj')) = distinct (map ident (held obj))"
    and s: "set (map ident (held obj')) = set (map ident (held obj))"
    by (metis mset_eq_imp_distinct_iff, metis set_mset_mset)
  have j: "js_in i obj' = js_in i obj" for i using assms(3) by (simp add: js_in_def)
  show ?thesis using assms(1,3) d s j unfolding separate_identifiers_def by simp
qed

lemma disjoint_containers:
  "distinct (map ident (held obj)) \<Longrightarrow> map_of obj c = Some xc \<Longrightarrow> map_of obj d = Some xd \<Longrightarrow> c \<noteq> d
     \<Longrightarrow> ident ` set xc \<inter> ident ` set xd = {}"
proof (induction obj)
  case Nil then show ?case by simp
next
  case (Cons p obj)
  obtain k h where p: "p = (k, h)" by (cases p)
  from Cons.prems(1) p have dis: "ident ` set h \<inter> ident ` set (held obj) = {}" and d': "distinct (map ident (held obj))"
    by (auto simp: held_def)
  show ?case
  proof (cases "c = k")
    case True
    with Cons.prems p have "xc = h" "map_of obj d = Some xd" by auto
    with dis map_of_held[of obj d xd] show ?thesis by auto
  next
    case False
    show ?thesis
    proof (cases "d = k")
      case True
      with Cons.prems p False have "xd = h" "map_of obj c = Some xc" by auto
      with dis map_of_held[of obj c xc] show ?thesis by auto
    next
      case dk: False
      with False Cons.prems p have "map_of obj c = Some xc" "map_of obj d = Some xd" by auto
      from Cons.IH[OF d' this Cons.prems(4)] show ?thesis .
    qed
  qed
qed

lemma at_most_one_of_distinct:
  assumes "distinct (map ident (held obj))" shows "at_most_one_container obj ident"
  unfolding at_most_one_container_def holds_def
proof (intro ballI impI)
  fix c d i
  assume "(case map_of obj c of None \<Rightarrow> False | Some there \<Rightarrow> i \<in> set (map ident there)) \<and>
          (case map_of obj d of None \<Rightarrow> False | Some there \<Rightarrow> i \<in> set (map ident there))"
  then obtain xc xd where h: "map_of obj c = Some xc" "i \<in> ident ` set xc" "map_of obj d = Some xd" "i \<in> ident ` set xd"
    by (auto split: option.splits)
  from disjoint_containers[OF assms h(1) h(3)] h(2,4) show "c = d" by auto
qed

lemma splice_insert_mset: "mset (snd (splice xs pos 0 [x])) = mset xs + {#x#}"
  using splice_mset[of xs pos 0 "[x]"] splice_none_removed[of xs pos "[x]"] by simp

lemma splice_remove_mset:
  assumes "i < length xs"
  shows "mset (snd (splice xs (int i) 1 [])) + {#xs ! i#} = mset xs"
  using splice_mset[of xs "int i" 1 "[]"] splice_remove_at[OF assms] by (simp add: add.commute)

section \<open>The handlers of the pages, step by step\<close>

text \<open>The sortable list and the overlay page: a drag end on a list that is not empty permutes it.\<close>

lemma sortable_drag_end_permutes:
  assumes "items \<noteq> []"
  shows "\<exists>items'. SortableListPage_handleDragEnd event items = Inr items' \<and> mset items' = mset items"
proof (cases "over event = None \<or> over event = Some (active event)")
  case True
  then show ?thesis by (auto simp: SortableListPage_handleDragEnd_def)
next
  case False
  then obtain over_id where o: "over event = Some over_id" "active event \<noteq> over_id" by auto
  let ?old = "findIndex (\<lambda>item. item_id item = active event) items"
  let ?new = "findIndex (\<lambda>item. item_id item = over_id) items"
  have "?old < int (length items)" using findIndex_range by blast
  from arrayMove_defined[OF assms this, of ?new] obtain items' where m: "arrayMove items ?old ?new = Inr items'"
    by blast
  with o have "SortableListPage_handleDragEnd event items = Inr items'"
    by (simp add: SortableListPage_handleDragEnd_def)
  with arrayMove_mset[OF m] show ?thesis by simp
qed

lemma sortable_reachable_nonempty: "SortableListPage_reachable items \<Longrightarrow> items \<noteq> []"
proof (induction rule: SortableListPage_reachable.induct)
  case sortable_load
  show ?case by (simp add: initialItems_def)
next
  case (sortable_drag items event items')
  from sortable_drag_end_permutes[OF sortable_drag.IH, of event] sortable_drag.hyps(2)
  have "mset items' = mset items" by auto
  with sortable_drag.IH show ?case by (metis mset_zero_iff)
next
  case (sortable_reset items)
  show ?case by (simp add: SortableListPage_resetList_def initialItems_def)
qed

lemma overlay_drag_end_permutes:
  assumes "overlay_items st \<noteq> []"
  shows "\<exists>st'. CustomOverlayPage_handleDragEnd event st = Inr st' \<and>
           mset (overlay_items st') = mset (overlay_items st)"
proof (cases "over event = None \<or> over event = Some (active event)")
  case True
  then show ?thesis by (auto simp: CustomOverlayPage_handleDragEnd_def)
next
  case False
  then obtain over_id where o: "over event = Some over_id" "active event \<noteq> over_id" by auto
  let ?old = "findIndex (\<lambda>item. file_id item = active event) (overlay_items st)"
  let ?new = "findIndex (\<lambda>item. file_id item = over_id) (overlay_items st)"
  have "?old < int (length (overlay_items st))" using findIndex_range by blast
  from arrayMove_defined[OF assms this, of ?new] obtain items' where m: "arrayMove (overlay_items st) ?old ?new = Inr items'"
    by blast
  with o have "CustomOverlayPage_handleDragEnd event st
                 = Inr (st\<lparr>overlay_items := items', overlay_activeItem := None\<rparr>)"
    by (simp add: CustomOverlayPage_handleDragEnd_def)
  with arrayMove_mset[OF m] show ?thesis by simp
qed

lemma overlay_reachable_nonempty: "CustomOverlayPage_reachable st \<Longrightarrow> overlay_items st \<noteq> []"
proof (induction rule: CustomOverlayPage_reachable.induct)
  case overlay_load
  show ?case by (simp add: fileItems_def)
next
  case (overlay_start st event)
  then show ?case by (simp add: CustomOverlayPage_handleDragStart_def split: option.splits)
next
  case (overlay_drag st event st')
  from overlay_drag_end_permutes[OF overlay_drag.IH, of event] overlay_drag.hyps(2)
  have "mset (overlay_items st') = mset (overlay_items st)" by auto
  with overlay_drag.IH show ?case by (metis mset_zero_iff)
next
  case (overlay_reset st)
  show ?case by (simp add: CustomOverlayPage_resetItems_def fileItems_def)
qed

text \<open>
  The Kanban board: when no task carries an identifier that \<open>in\<close> finds in the board, a
  drag end keeps the tasks and the columns, and never gets stuck.
\<close>

lemma findColumnOfTask_Some:
  assumes "findColumnOfTask board i = Some c"
  obtains col where "map_of board c = Some col" "i \<in> task_id ` set col"
proof -
  from assms have "case map_of board c of None \<Rightarrow> False
                    | Some column \<Rightarrow> list_ex (\<lambda>task. task_id task = i) column"
    unfolding findColumnOfTask_def by (metis (mono_tags, lifting) find_Some_iff)
  then show thesis using that by (auto simp: list_ex_iff split: option.splits)
qed

lemma kanban_updater_keeps_tasks:
  assumes nk: "\<forall>t \<in> set (held board). \<not> js_in (task_id t) board"
    and ac: "map_of board ac = Some col" "activeId \<in> task_id ` set col"
    and oc: "overColumn = None \<or>
             (\<exists>oc col'. overColumn = Some oc \<and> map_of board oc = Some col' \<and> overId \<in> task_id ` set col')"
  shows "\<exists>board'. KanbanBoardPage_setTasks_updater activeId overId ac overColumn board = Inr board' \<and>
           mset (held board') = mset (held board) \<and> map fst board' = map fst board"
proof -
  from ac(2) obtain x where "x \<in> set col" "task_id x = activeId" by auto
  then obtain i where i: "findIndex (\<lambda>task. task_id task = activeId) col = int i" "i < length col"
    by (rule findIndex_present[where p = "\<lambda>task. task_id task = activeId"])
  consider (cross) oc col' where "overColumn = Some oc" "truthy oc" "oc \<noteq> ac"
      "map_of board oc = Some col'" "overId \<in> task_id ` set col'"
    | (same) "overColumn = Some ac"
    | (other) "\<not> ((case overColumn of None \<Rightarrow> False | Some c \<Rightarrow> truthy c) \<and> Some ac \<noteq> overColumn)"
        "Some ac \<noteq> overColumn"
    using oc by (cases overColumn) auto
  then show ?thesis
  proof cases
    case cross
    from cross(4,5) map_of_held[OF cross(4)] nk have nj: "\<not> js_in overId board" by auto
    define pos where "pos = (if 0 \<le> findIndex (\<lambda>task. task_id task = overId) col'
                             then findIndex (\<lambda>task. task_id task = overId) col' else int (length col'))"
    define src' where "src' = snd (splice col (int i) 1 [])"
    define dst' where "dst' = snd (splice col' pos 0 [col ! i])"
    have upd: "KanbanBoardPage_setTasks_updater activeId overId ac overColumn board
                = Inr (AList.update oc dst' (AList.update ac src' board))"
      unfolding KanbanBoardPage_setTasks_updater_def
      using cross(1-4) ac(1) i(1) nj by (simp add: Let_def src'_def dst'_def pos_def)
    have m: "mset src' + {#col ! i#} = mset col" unfolding src'_def by (rule splice_remove_mset[OF i(2)])
    have m': "mset dst' = mset col' + {#col ! i#}" unfolding dst'_def by (rule splice_insert_mset)
    from move_between[OF ac(1) cross(4) cross(3)[symmetric] m m'] upd show ?thesis by simp
  next
    case same
    have "col \<noteq> []" using i(2) by auto
    from arrayMove_defined[OF this, of "int i" "findIndex (\<lambda>task. task_id task = overId) col"] i(2)
    obtain moved where mv: "arrayMove col (int i) (findIndex (\<lambda>task. task_id task = overId) col) = Inr moved"
      by auto
    have upd: "KanbanBoardPage_setTasks_updater activeId overId ac overColumn board
                = Inr (AList.update ac moved board)"
      unfolding KanbanBoardPage_setTasks_updater_def using same ac(1) i(1) mv by (simp add: Let_def)
    from held_update[OF ac(1), of moved] arrayMove_mset[OF mv]
    have "mset (held (AList.update ac moved board)) = mset (held board)" by simp
    with upd keys_update[OF ac(1), of moved] show ?thesis by simp
  next
    case other
    then have "KanbanBoardPage_setTasks_updater activeId overId ac overColumn board = Inr board"
      unfolding KanbanBoardPage_setTasks_updater_def by (simp only: if_False)
    then show ?thesis by simp
  qed
qed

lemma kanban_drag_end_keeps_tasks:
  assumes "separate_identifiers (kanban_tasks st) task_id"
  shows "\<exists>st'. KanbanBoardPage_handleDragEnd event st = Inr st' \<and>
           mset (held (kanban_tasks st')) = mset (held (kanban_tasks st)) \<and>
           map fst (kanban_tasks st') = map fst (kanban_tasks st) \<and>
           separate_identifiers (kanban_tasks st') task_id"
proof (cases "over event")
  case None
  with assms show ?thesis by (simp add: KanbanBoardPage_handleDragEnd_def)
next
  case (Some overId)
  let ?board = "kanban_tasks st"
  from assms have nk: "\<forall>t \<in> set (held ?board). \<not> js_in (task_id t) ?board"
    by (simp add: separate_identifiers_def)
  show ?thesis
  proof (cases "active event = overId \<or> findColumnOfTask ?board (active event) = None \<or>
                (\<exists>c. findColumnOfTask ?board (active event) = Some c \<and> \<not> truthy c)")
    case True
    with Some assms show ?thesis by (auto simp: KanbanBoardPage_handleDragEnd_def Let_def)
  next
    case False
    then obtain ac where ac: "findColumnOfTask ?board (active event) = Some ac" "truthy ac"
      and ne: "active event \<noteq> overId" by auto
    from ac(1) obtain col where col: "map_of ?board ac = Some col" "active event \<in> task_id ` set col"
      by (rule findColumnOfTask_Some)
    have oc: "findColumnOfTask ?board overId = None \<or>
              (\<exists>oc col'. findColumnOfTask ?board overId = Some oc \<and> map_of ?board oc = Some col' \<and>
                 overId \<in> task_id ` set col')"
    proof (cases "findColumnOfTask ?board overId")
      case None then show ?thesis by simp
    next
      case (Some oc)
      then show ?thesis using findColumnOfTask_Some[OF Some] by metis
    qed
    from kanban_updater_keeps_tasks[OF nk col oc]
    obtain board' where b: "KanbanBoardPage_setTasks_updater (active event) overId ac
          (findColumnOfTask ?board overId) ?board = Inr board'"
      "mset (held board') = mset (held ?board)" "map fst board' = map fst ?board" by blast
    have h: "KanbanBoardPage_handleDragEnd event st = Inr \<lparr>kanban_tasks = board', kanban_activeTask = None\<rparr>"
      using Some ne ac b(1) by (simp add: KanbanBoardPage_handleDragEnd_def Let_def)
    from separate_same_content[OF assms b(2,3)] h b(2,3) show ?thesis by simp
  qed
qed

lemma initialTasks_separate: "separate_identifiers initialTasks task_id"
  by (simp add: separate_identifiers_def initialTasks_def held_def js_in_def Object_prototype_keys_def)

lemma kanban_reachable_separate:
  "KanbanBoardPage_reachable st \<Longrightarrow> separate_identifiers (kanban_tasks st) task_id"
proof (induction rule: KanbanBoardPage_reachable.induct)
  case kanban_load
  show ?case by (simp add: initialTasks_separate)
next
  case (kanban_start st event)
  then show ?case
    by (auto simp: KanbanBoardPage_handleDragStart_def Let_def split: option.splits)
next
  case (kanban_drag st event st')
  from kanban_drag_end_keeps_tasks[OF kanban_drag.IH, of event] kanban_drag.hyps(2) show ?case by auto
next
  case (kanban_reset st)
  show ?case by (simp add: KanbanBoardPage_resetBoard_def initialTasks_separate)
qed

text \<open>The multiple containers page: what a drag end does.\<close>

lemma findContainer_held:
  assumes "findContainer items i = Some c" "\<not> js_in i items"
  obtains there where "map_of items c = Some there" "i \<in> set there"
proof -
  from assms have "case map_of items c of None \<Rightarrow> False | Some there \<Rightarrow> i \<in> set there"
    unfolding findContainer_def by (simp, metis (mono_tags, lifting) find_Some_iff)
  then show thesis using that by (auto split: option.splits)
qed

lemma multi_updater_moves:
  assumes "map_of items src = Some there" "i \<in> set there" "map_of items dst = Some there'" "src \<noteq> dst"
  shows "MultipleContainersPage_setItems_updater i src dst items
           = Inr (AList.update dst (there' @ [i]) (AList.update src (remove1 i there) items))"
  using assms by (simp add: MultipleContainersPage_setItems_updater_def Let_def splice_indexOf_remove1)

lemma multi_drag_end_keeps_ids:
  assumes nk: "active event \<notin> set (map fst items)"
    and r: "MultipleContainersPage_handleDragEnd event items = Inr items'"
  shows "mset (held items') = mset (held items) \<and> map fst items' = map fst items"
proof (cases "items' = items")
  case True then show ?thesis by simp
next
  case False
  with r obtain overId src where o: "over event = Some overId"
    and a: "findContainer items (active event) = Some src"
    and ne: "src \<noteq> overContainer_of items overId"
    and u: "MultipleContainersPage_setItems_updater (active event) src (overContainer_of items overId) items = Inr items'"
    by (auto simp: MultipleContainersPage_handleDragEnd_def Let_def split: option.splits if_splits)
  from u obtain there there' where t: "map_of items src = Some there"
      "map_of items (overContainer_of items overId) = Some there'"
    by (auto simp: MultipleContainersPage_setItems_updater_def split: option.splits)
  have nj: "\<not> js_in (active event) items"
  proof
    assume "js_in (active event) items"
    with a have "src = active event" by (simp add: findContainer_def)
    with t(1) nk show False by (metis domI dom_map_of_conv_image_fst set_map)
  qed
  from findContainer_held[OF a nj] t(1) have mem: "active event \<in> set there" by auto
  from multi_updater_moves[OF t(1) mem t(2) ne] u
  have eq: "items' = AList.update (overContainer_of items overId) (there' @ [active event])
                       (AList.update src (remove1 (active event) there) items)" by simp
  have m: "mset (remove1 (active event) there) + {#active event#} = mset there" using mem by simp
  have m': "mset (there' @ [active event]) = mset there' + {#active event#}" by simp
  from move_between[OF t(1) t(2) ne m m'] eq show ?thesis by simp
qed

text \<open>
  The states the multiple containers page reaches through the events the library
  delivers have the containers and, all together, the identifiers of the initial state;
  on such a state a delivered event never gets stuck.
\<close>

lemma draggable_held:
  assumes "i \<in> set (draggable_ids items)"
  obtains c there where "c \<in> set containers" "map_of items c = Some there" "i \<in> set there"
proof -
  from assms obtain c where c: "c \<in> set containers"
    "i \<in> set (case map_of items c of None \<Rightarrow> [] | Some xs \<Rightarrow> xs)"
    unfolding draggable_ids_def by auto
  then obtain there where "map_of items c = Some there" "i \<in> set there"
    by (cases "map_of items c") auto
  with c(1) show thesis using that by blast
qed

lemma findContainer_finds:
  assumes "\<not> js_in i items" "map_of items c = Some there" "i \<in> set there"
  obtains src there' where "findContainer items i = Some src" "map_of items src = Some there'" "i \<in> set there'"
proof -
  let ?P = "\<lambda>key. case map_of items key of None \<Rightarrow> False | Some xs \<Rightarrow> i \<in> set xs"
  from assms(2) have "c \<in> set (map fst items)" by (metis domI dom_map_of_conv_image_fst set_map)
  moreover have "?P c" using assms(2,3) by simp
  ultimately have "List.find ?P (map fst items) \<noteq> None" by (auto simp: find_None_iff)
  then obtain src where f: "findContainer items i = Some src" using assms(1) by (auto simp: findContainer_def)
  from findContainer_held[OF f assms(1)] f show thesis using that by blast
qed

lemma containers_invariant_facts:
  assumes "map fst items = map fst initialContainers" "mset (held items) = mset (held initialContainers)"
  shows "distinct (held items)" and "\<forall>i \<in> set (held items). \<not> js_in i items"
    and "set containers \<subseteq> set (map fst items)" and "\<forall>k \<in> set (map fst items). truthy k"
proof -
  have d0: "distinct (held initialContainers)" by (simp add: held_def initialContainers_def)
  with assms(2) show "distinct (held items)" by (metis mset_eq_imp_distinct_iff)
  have s: "set (held items) = set (held initialContainers)" using assms(2) by (metis set_mset_mset)
  have j0: "\<forall>i \<in> set (held initialContainers). \<not> js_in i initialContainers"
    by (simp add: held_def initialContainers_def js_in_def Object_prototype_keys_def)
  have "js_in i items = js_in i initialContainers" for i using assms(1) by (simp add: js_in_def)
  with s j0 show "\<forall>i \<in> set (held items). \<not> js_in i items" by simp
  show "set containers \<subseteq> set (map fst items)" unfolding assms(1)
    by (simp add: containers_def initialContainers_def)
  show "\<forall>k \<in> set (map fst items). truthy k" unfolding assms(1)
    by (simp add: initialContainers_def truthy_def)
qed

lemma multi_deliverable_step:
  assumes k: "map fst items = map fst initialContainers"
    and m: "mset (held items) = mset (held initialContainers)"
    and a: "active event \<in> set (draggable_ids items)"
    and o: "over event = Some overId" "overId \<in> set containers"
    and h: "map_of items src = Some there" "active event \<in> set there"
  shows "\<exists>there'. map_of items overId = Some there' \<and>
           findContainer items (active event) = Some src \<and> overContainer_of items overId = overId \<and>
           truthy src \<and> truthy overId \<and>
           MultipleContainersPage_handleDragEnd event items =
             (if src = overId then Inr items
              else Inr (AList.update overId (there' @ [active event])
                          (AList.update src (remove1 (active event) there) items)))"
proof -
  note f = containers_invariant_facts[OF k m]
  from h(1) have sk: "src \<in> set (map fst items)" by (metis domI dom_map_of_conv_image_fst set_map)
  from map_of_held[OF h(1)] h(2) have ah: "active event \<in> set (held items)" by auto
  with f(2) have nj: "\<not> js_in (active event) items" by blast
  from findContainer_finds[OF nj h] obtain src' t' where
    fc: "findContainer items (active event) = Some src'" "map_of items src' = Some t'" "active event \<in> set t'"
    by blast
  have same: "src' = src"
  proof (rule ccontr)
    assume "src' \<noteq> src"
    from disjoint_containers[where ident = "\<lambda>i. i", OF _ fc(2) h(1) this] f(1) fc(3) h(2)
    show False by auto
  qed
  from o(2) f(3) have ok: "overId \<in> set (map fst items)" by blast
  then obtain there' where t: "map_of items overId = Some there'"
    by (metis (no_types, opaque_lifting) dom_map_of_conv_image_fst domD set_map)
  from ok f(4) have to: "truthy overId" by blast
  from sk f(4) have ts: "truthy src" by blast
  have oc: "overContainer_of items overId = overId"
    using ok to by (simp add: overContainer_of_def findContainer_def js_in_def)
  have r: "MultipleContainersPage_handleDragEnd event items =
             (if src = overId then Inr items
              else Inr (AList.update overId (there' @ [active event])
                          (AList.update src (remove1 (active event) there) items)))"
  proof (cases "src = overId")
    case True
    then show ?thesis using o(1) fc(1) same oc
      by (simp add: MultipleContainersPage_handleDragEnd_def Let_def)
  next
    case False
    from multi_updater_moves[OF h(1) h(2) t False]
    show ?thesis using o(1) fc(1) same oc ts to False
      by (simp add: MultipleContainersPage_handleDragEnd_def Let_def)
  qed
  from t fc(1) same oc ts to r show ?thesis by blast
qed

lemma multi_reachable_inv:
  "MultipleContainersPage_reachable items \<Longrightarrow>
     map fst items = map fst initialContainers \<and> mset (held items) = mset (held initialContainers)"
proof (induction rule: MultipleContainersPage_reachable.induct)
  case containers_load
  show ?case by simp
next
  case (containers_drag items event items')
  then have k: "map fst items = map fst initialContainers"
    and m: "mset (held items) = mset (held initialContainers)" by simp_all
  from containers_drag.hyps(2) have "active event \<in> set (draggable_ids items)" by (simp add: deliverable_def)
  then obtain c there where "map_of items c = Some there" "active event \<in> set there"
    by (rule draggable_held)
  with map_of_held[of items c there] containers_invariant_facts(2)[OF k m] have "\<not> js_in (active event) items" by auto
  then have "active event \<notin> set (map fst items)" by (simp add: js_in_def)
  from multi_drag_end_keeps_ids[OF this containers_drag.hyps(3)] k m show ?case by simp
qed

lemma multi_deliverable_never_stuck:
  assumes "MultipleContainersPage_reachable items" "deliverable items event"
  shows "\<exists>items'. MultipleContainersPage_handleDragEnd event items = Inr items' \<and>
           MultipleContainersPage_reachable items' \<and> distinct (held items')"
proof -
  from multi_reachable_inv[OF assms(1)] have k: "map fst items = map fst initialContainers"
    and m: "mset (held items) = mset (held initialContainers)" by simp_all
  from assms(2) have a: "active event \<in> set (draggable_ids items)" by (simp add: deliverable_def)
  then obtain c there where h: "map_of items c = Some there" "active event \<in> set there"
    by (rule draggable_held)
  have "\<exists>items'. MultipleContainersPage_handleDragEnd event items = Inr items'"
  proof (cases "over event")
    case None
    then show ?thesis by (simp add: MultipleContainersPage_handleDragEnd_def)
  next
    case (Some overId)
    with assms(2) have "overId \<in> set containers" by (simp add: deliverable_def)
    from multi_deliverable_step[OF k m a Some this h] show ?thesis by (auto split: if_splits)
  qed
  then obtain items' where r: "MultipleContainersPage_handleDragEnd event items = Inr items'" by blast
  have re: "MultipleContainersPage_reachable items'" by (rule containers_drag[OF assms r])
  from multi_reachable_inv[OF re] have "distinct (held items')" by (intro containers_invariant_facts(1)) simp_all
  with r re show ?thesis by blast
qed

section \<open>A drag end keeps the items\<close>

text \<open>
  Claim C8. In every state the sortable list page, the overlay page or the Kanban board
  can reach from its initial state, whatever the identifiers of the event are, the drag
  end yields a new state and does not get stuck; the new list is a permutation of the
  old one, and the columns of the new board hold together exactly the tasks the columns
  of the old board held (as multisets: nothing dropped, nothing duplicated).
\<close>

theorem drag_end_preserves_multiset:
  "(SortableListPage_reachable items \<longrightarrow>
      (\<exists>items'. SortableListPage_handleDragEnd event items = Inr items' \<and> mset items' = mset items)) \<and>
   (CustomOverlayPage_reachable ost \<longrightarrow>
      (\<exists>ost'. CustomOverlayPage_handleDragEnd event ost = Inr ost' \<and>
         mset (overlay_items ost') = mset (overlay_items ost))) \<and>
   (KanbanBoardPage_reachable kst \<longrightarrow>
      (\<exists>kst'. KanbanBoardPage_handleDragEnd event kst = Inr kst' \<and>
         mset (held (kanban_tasks kst')) = mset (held (kanban_tasks kst))))"
  using sortable_drag_end_permutes[OF sortable_reachable_nonempty]
    overlay_drag_end_permutes[OF overlay_reachable_nonempty]
    kanban_drag_end_keeps_tasks[OF kanban_reachable_separate]
  by blast

theorem drag_end_preserves_multiset_witness:
  "SortableListPage_reachable initialItems \<and>
   (case SortableListPage_handleDragEnd \<lparr>active = ''1'', over = Some ''3''\<rparr> initialItems of
      Inl e \<Rightarrow> False | Inr items' \<Rightarrow> mset items' = mset initialItems) \<and>
   CustomOverlayPage_reachable \<lparr>overlay_items = fileItems, overlay_activeItem = None\<rparr> \<and>
   (case CustomOverlayPage_handleDragEnd \<lparr>active = ''file-2'', over = Some ''file-5''\<rparr>
           \<lparr>overlay_items = fileItems, overlay_activeItem = None\<rparr> of
      Inl e \<Rightarrow> False | Inr ost' \<Rightarrow> mset (overlay_items ost') = mset fileItems) \<and>
   KanbanBoardPage_reachable \<lparr>kanban_tasks = initialTasks, kanban_activeTask = None\<rparr> \<and>
   (case KanbanBoardPage_handleDragEnd \<lparr>active = ''task-1'', over = Some ''task-4''\<rparr>
           \<lparr>kanban_tasks = initialTasks, kanban_activeTask = None\<rparr> of
      Inl e \<Rightarrow> False | Inr kst' \<Rightarrow> mset (held (kanban_tasks kst')) = mset (held initialTasks))"
  using drag_end_preserves_multiset [of initialItems "\<lparr>active = ''1'', over = Some ''3''\<rparr>"
               "\<lparr>overlay_items = fileItems, overlay_activeItem = None\<rparr>"
               "\<lparr>kanban_tasks = initialTasks, kanban_activeTask = None\<rparr>"]
        drag_end_preserves_multiset [of initialItems "\<lparr>active = ''file-2'', over = Some ''file-5''\<rparr>"
               "\<lparr>overlay_items = fileItems, overlay_activeItem = None\<rparr>"
               "\<lparr>kanban_tasks = initialTasks, kanban_activeTask = None\<rparr>"]
        drag_end_preserves_multiset [of initialItems "\<lparr>active = ''task-1'', over = Some ''task-4''\<rparr>"
               "\<lparr>overlay_items = fileItems, overlay_activeItem = None\<rparr>"
               "\<lparr>kanban_tasks = initialTasks, kanban_activeTask = None\<rparr>"]
        sortable_load overlay_load kanban_load
  by auto

section \<open>An identifier is in one container at most\<close>

text \<open>
  Claim C1. On the Kanban board, in every state the board can reach from its initial
  state and for every event: if every identifier is in one column at most before the
  event, the drag end yields a board (it does not get stuck) in which every identifier
  is in one column at most; no identifier occurs twice in it at all. On the multiple
  containers page, in every state the page can reach from its initial state through the
  events the library delivers, and for every such event: if every identifier is in one
  container at most before the event, the drag end yields a state in which every
  identifier is in one container at most, and no identifier occurs twice in it at all.
\<close>

theorem drag_end_keeps_identifiers_separate:
  "(KanbanBoardPage_reachable st \<and> at_most_one_container (kanban_tasks st) task_id \<longrightarrow>
      (\<exists>st'. KanbanBoardPage_handleDragEnd event st = Inr st' \<and>
         at_most_one_container (kanban_tasks st') task_id \<and>
         distinct (map task_id (held (kanban_tasks st'))))) \<and>
   (MultipleContainersPage_reachable items \<and> deliverable items event \<and>
    at_most_one_container items (\<lambda>i. i) \<longrightarrow>
      (\<exists>items'. MultipleContainersPage_handleDragEnd event items = Inr items' \<and>
         at_most_one_container items' (\<lambda>i. i) \<and> distinct (held items')))"
proof (intro conjI impI)
  assume "KanbanBoardPage_reachable st \<and> at_most_one_container (kanban_tasks st) task_id"
  then have "separate_identifiers (kanban_tasks st) task_id" by (simp add: kanban_reachable_separate)
  from kanban_drag_end_keeps_tasks[OF this, of event]
  obtain st' where s: "KanbanBoardPage_handleDragEnd event st = Inr st'"
    "separate_identifiers (kanban_tasks st') task_id" by blast
  from s(2) have d: "distinct (map task_id (held (kanban_tasks st')))" by (simp add: separate_identifiers_def)
  from at_most_one_of_distinct[OF d] s(1) d
  show "\<exists>st'. KanbanBoardPage_handleDragEnd event st = Inr st' \<and>
         at_most_one_container (kanban_tasks st') task_id \<and>
         distinct (map task_id (held (kanban_tasks st')))" by blast
next
  assume "MultipleContainersPage_reachable items \<and> deliverable items event \<and>
    at_most_one_container items (\<lambda>i. i)"
  then have "MultipleContainersPage_reachable items" "deliverable items event" by simp_all
  from multi_deliverable_never_stuck[OF this]
  obtain items' where r: "MultipleContainersPage_handleDragEnd event items = Inr items'"
    "distinct (held items')" by blast
  from r(2) have "at_most_one_container items' (\<lambda>i. i)" by (intro at_most_one_of_distinct) simp
  with r show "\<exists>items'. MultipleContainersPage_handleDragEnd event items = Inr items' \<and>
         at_most_one_container items' (\<lambda>i. i) \<and> distinct (held items')" by blast
qed

theorem drag_end_keeps_identifiers_separate_witness:
  "KanbanBoardPage_reachable \<lparr>kanban_tasks = initialTasks, kanban_activeTask = None\<rparr> \<and>
   at_most_one_container initialTasks task_id \<and>
   (case KanbanBoardPage_handleDragEnd \<lparr>active = ''task-1'', over = Some ''task-4''\<rparr>
           \<lparr>kanban_tasks = initialTasks, kanban_activeTask = None\<rparr> of
      Inl e \<Rightarrow> False
    | Inr st' \<Rightarrow> at_most_one_container (kanban_tasks st') task_id) \<and>
   MultipleContainersPage_reachable initialContainers \<and>
   deliverable initialContainers \<lparr>active = ''item-1'', over = Some ''Container B''\<rparr> \<and>
   at_most_one_container initialContainers (\<lambda>i. i) \<and>
   (case MultipleContainersPage_handleDragEnd \<lparr>active = ''item-1'', over = Some ''Container B''\<rparr>
           initialContainers of
      Inl e \<Rightarrow> False
    | Inr items' \<Rightarrow> at_most_one_container items' (\<lambda>i. i))"
proof -
  let ?st = "\<lparr>kanban_tasks = initialTasks, kanban_activeTask = None\<rparr>"
  let ?ev = "\<lparr>active = ''item-1'', over = Some ''Container B''\<rparr>"
  have k1: "KanbanBoardPage_reachable ?st" by (rule kanban_load)
  have k2: "at_most_one_container (kanban_tasks ?st) task_id"
    by (intro at_most_one_of_distinct) (simp add: held_def initialTasks_def)
  have m1: "MultipleContainersPage_reachable initialContainers" by (rule containers_load)
  have m2: "deliverable initialContainers ?ev"
    by (simp add: deliverable_def draggable_ids_def containers_def initialContainers_def)
  have m3: "at_most_one_container initialContainers (\<lambda>i. i)"
    by (intro at_most_one_of_distinct) (simp add: held_def initialContainers_def)
  note h = drag_end_keeps_identifiers_separate [where st = ?st and event = "\<lparr>active = ''task-1'', over = Some ''task-4''\<rparr>"
                 and items = initialContainers]
           drag_end_keeps_identifiers_separate [where st = ?st and event = ?ev and items = initialContainers]
  from h k1 k2 m1 m2 m3 show ?thesis by auto
qed

section \<open>Multiple containers: moving an item\<close>

text \<open>
  Claim C7. In every state the page can reach from its initial state through the events
  the library delivers, for every such event with a drop target, and for the container
  that holds the active identifier: the destination is a container of the state, the
  container that holds the active identifier is the one \<open>findContainer\<close> answers, and
  the destination \<open>findContainer(overId) || overId\<close> is the drop target (and for every
  such event one of the three containers holds the active identifier). When the two
  differ, the drag end removes the active identifier from the array of the source (its
  first occurrence, which is what \<open>splice\<close> at the index \<open>indexOf\<close> answers removes) and
  appends it at the end of the array of the destination, the other containers being
  left as they are; when they are the same, the state is unchanged. In every state and
  for every event, the state is also unchanged when there is no drop target, when the
  active identifier resolves to no container (it is no property name of the state and
  no container holds it), and when the destination resolves to nothing (the empty
  identifier, which is no property name and which no container holds).
\<close>

theorem multiple_containers_drag_end_moves_item:
  "(MultipleContainersPage_reachable items \<and> deliverable items event \<and> over event = Some overId \<and>
    map_of items src = Some there \<and> active event \<in> set there \<longrightarrow>
      (\<exists>there'. map_of items overId = Some there' \<and>
         findContainer items (active event) = Some src \<and> overContainer_of items overId = overId \<and>
         (src \<noteq> overId \<longrightarrow>
            MultipleContainersPage_handleDragEnd event items
              = Inr (AList.update overId (there' @ [active event])
                       (AList.update src (remove1 (active event) there) items)) \<and>
            remove1 (active event) there = snd (splice there (indexOf there (active event)) 1 [])) \<and>
         (src = overId \<longrightarrow> MultipleContainersPage_handleDragEnd event items = Inr items))) \<and>
   (deliverable items event \<longrightarrow>
      (\<exists>src there. src \<in> set containers \<and> map_of items src = Some there \<and> active event \<in> set there)) \<and>
   (over event = None \<or>
    (\<not> js_in (active event) items \<and> active event \<notin> set (held items)) \<or>
    (over event = Some [] \<and> \<not> js_in [] items \<and> [] \<notin> set (held items))
    \<longrightarrow> MultipleContainersPage_handleDragEnd event items = Inr items)"
proof (intro conjI impI)
  assume h: "MultipleContainersPage_reachable items \<and> deliverable items event \<and> over event = Some overId \<and>
    map_of items src = Some there \<and> active event \<in> set there"
  then have re: "MultipleContainersPage_reachable items" and de: "deliverable items event"
    and o: "over event = Some overId" and ms: "map_of items src = Some there"
    and mem: "active event \<in> set there" by blast+
  from multi_reachable_inv[OF re] have k: "map fst items = map fst initialContainers"
    and m: "mset (held items) = mset (held initialContainers)" by simp_all
  from de o have a: "active event \<in> set (draggable_ids items)" and oc: "overId \<in> set containers"
    by (simp_all add: deliverable_def)
  from multi_deliverable_step[OF k m a o oc ms mem]
  obtain there' where t: "map_of items overId = Some there'"
    "findContainer items (active event) = Some src" "overContainer_of items overId = overId"
    "MultipleContainersPage_handleDragEnd event items =
             (if src = overId then Inr items
              else Inr (AList.update overId (there' @ [active event])
                          (AList.update src (remove1 (active event) there) items)))" by blast
  have s: "remove1 (active event) there = snd (splice there (indexOf there (active event)) 1 [])"
    using mem by (simp add: splice_indexOf_remove1)
  from t s show "\<exists>there'. map_of items overId = Some there' \<and>
         findContainer items (active event) = Some src \<and> overContainer_of items overId = overId \<and>
         (src \<noteq> overId \<longrightarrow>
            MultipleContainersPage_handleDragEnd event items
              = Inr (AList.update overId (there' @ [active event])
                       (AList.update src (remove1 (active event) there) items)) \<and>
            remove1 (active event) there = snd (splice there (indexOf there (active event)) 1 [])) \<and>
         (src = overId \<longrightarrow> MultipleContainersPage_handleDragEnd event items = Inr items)"
    by auto
next
  assume "deliverable items event"
  then have "active event \<in> set (draggable_ids items)" by (simp add: deliverable_def)
  then show "\<exists>src there. src \<in> set containers \<and> map_of items src = Some there \<and> active event \<in> set there"
    by (rule draggable_held) blast
next
  assume c: "over event = None \<or>
    (\<not> js_in (active event) items \<and> active event \<notin> set (held items)) \<or>
    (over event = Some [] \<and> \<not> js_in [] items \<and> [] \<notin> set (held items))"
  have none: "findContainer items i = None" if "\<not> js_in i items" "i \<notin> set (held items)" for i
  proof (rule ccontr)
    assume "findContainer items i \<noteq> None"
    then obtain c where "findContainer items i = Some c" by auto
    from findContainer_held[OF this that(1)] map_of_held[of items c] that(2) show False by blast
  qed
  from c show "MultipleContainersPage_handleDragEnd event items = Inr items"
  proof (elim disjE)
    assume "over event = None"
    then show ?thesis by (simp add: MultipleContainersPage_handleDragEnd_def)
  next
    assume "\<not> js_in (active event) items \<and> active event \<notin> set (held items)"
    then have "findContainer items (active event) = None" using none by blast
    then show ?thesis by (simp add: MultipleContainersPage_handleDragEnd_def Let_def split: option.splits)
  next
    assume e: "over event = Some [] \<and> \<not> js_in [] items \<and> [] \<notin> set (held items)"
    then have "findContainer items [] = None" using none by blast
    then have "overContainer_of items [] = []" by (simp add: overContainer_of_def)
    with e show ?thesis
      by (simp add: MultipleContainersPage_handleDragEnd_def Let_def truthy_def split: option.splits)
  qed
qed

theorem multiple_containers_drag_end_moves_item_witness:
  "MultipleContainersPage_reachable initialContainers \<and>
   deliverable initialContainers \<lparr>active = ''item-4'', over = Some ''Container A''\<rparr> \<and>
   map_of initialContainers ''Container C'' = Some [''item-4'', ''item-5''] \<and>
   MultipleContainersPage_handleDragEnd \<lparr>active = ''item-4'', over = Some ''Container A''\<rparr> initialContainers
     = Inr [(''Container A'', [''item-1'', ''item-2'', ''item-4'']), (''Container B'', [''item-3'']),
            (''Container C'', [''item-5'']), (''root'', [])] \<and>
   MultipleContainersPage_handleDragEnd \<lparr>active = ''item-4'', over = Some ''Container C''\<rparr> initialContainers
     = Inr initialContainers \<and>
   MultipleContainersPage_handleDragEnd \<lparr>active = ''item-4'', over = None\<rparr> initialContainers
     = Inr initialContainers"
proof -
  let ?ev = "\<lparr>active = ''item-4'', over = Some ''Container A''\<rparr>"
  let ?ev' = "\<lparr>active = ''item-4'', over = Some ''Container C''\<rparr>"
  have r: "MultipleContainersPage_reachable initialContainers" by (rule containers_load)
  have d: "deliverable initialContainers ?ev" "deliverable initialContainers ?ev'"
    by (simp_all add: deliverable_def draggable_ids_def containers_def initialContainers_def)
  have m: "map_of initialContainers ''Container C'' = Some [''item-4'', ''item-5'']"
    by (simp add: initialContainers_def)
  have a: "map_of initialContainers ''Container A'' = Some [''item-1'', ''item-2'']"
    by (simp add: initialContainers_def)
  note h1 = multiple_containers_drag_end_moves_item
              [where items = initialContainers and event = ?ev and overId = "''Container A''"
                  and src = "''Container C''" and there = "[''item-4'', ''item-5'']", THEN conjunct1]
  note h2 = multiple_containers_drag_end_moves_item
              [where items = initialContainers and event = ?ev' and overId = "''Container C''"
                  and src = "''Container C''" and there = "[''item-4'', ''item-5'']", THEN conjunct1]
  note h3 = multiple_containers_drag_end_moves_item
              [where items = initialContainers and event = "\<lparr>active = ''item-4'', over = None\<rparr>"
                  and overId = "''Container A''" and src = "''Container C''"
                  and there = "[''item-4'', ''item-5'']", THEN conjunct2, THEN conjunct2]
  have 1: "MultipleContainersPage_handleDragEnd ?ev initialContainers
     = Inr [(''Container A'', [''item-1'', ''item-2'', ''item-4'']), (''Container B'', [''item-3'']),
            (''Container C'', [''item-5'']), (''root'', [])]"
    using h1 r d(1) m a by (auto simp: initialContainers_def)
  have 2: "MultipleContainersPage_handleDragEnd ?ev' initialContainers = Inr initialContainers"
    using h2 r d(2) m by auto
  have 3: "MultipleContainersPage_handleDragEnd \<lparr>active = ''item-4'', over = None\<rparr> initialContainers
     = Inr initialContainers"
    using h3 by simp
  from r d(1) m 1 2 3 show ?thesis by simp
qed

end
